theory Spec2Isabelle
  imports Main "HOL-Library.Word"
begin

unbundle bit_operations_syntax

section \<open>Control transfers of endpoint 0 (qusb_control.c)\<close>

subsection \<open>Data model\<close>

text \<open>
  The C integer types of the source: \<open>uint8_t\<close> and \<open>uint16_t\<close> are words, so that
  \<open>-=\<close> and \<open>+=\<close> on a \<open>uint16_t\<close> field wrap around as they do in C. Comparisons
  in C happen after integer promotion, that is on the unsigned values (\<open>unat\<close>).

  The structs \<open>qusb_device\<close>, \<open>qusb_setup_data\<close> and \<open>user_control_callback\<close> are
  declared in headers of the library that are not among the sources. The fields of the
  setup data and \<open>bMaxPacketSize0\<close> have the widths that the USB specification gives
  them; \<open>ctrl_len\<close> and \<open>ctrl_buf_len\<close> are taken as \<open>uint16_t\<close>, the type of
  the \<open>wLength\<close> that they are compared with.
\<close>

type_synonym uint8_t = "8 word"
type_synonym uint16_t = "16 word"

text \<open>
  A byte pointer is an address; \<open>NULL\<close> is address 0. Pointer arithmetic
  (\<open>ctrl_buf += max_packet_size\<close>, \<open>ctrl_buf + ctrl_len\<close>) adds to the address.
\<close>

type_synonym ptr = nat

definition NULL :: ptr where
  "NULL = 0"

text \<open>The states of a control transfer, in the order of the enumeration.\<close>

datatype control_state_e =
  IDLE | DATA_IN | LAST_DATA_IN | STATUS_IN | DATA_OUT | LAST_DATA_OUT | STATUS_OUT

text \<open>The 8 bytes of a SETUP packet (\<open>qusb_setup_data\<close>).\<close>

record qusb_setup_data =
  bmRequestType :: uint8_t
  bRequest :: uint8_t
  wValue :: uint16_t
  wIndex :: uint16_t
  wLength :: uint16_t

text \<open>
  Modelled from the spec: the enumeration \<open>qusb_request_return_code\<close> is declared in a
  header that is not among the sources. The spec names its three values
  (not-supported, handled, defer); the engine tests the result of a dispatch for being
  non-zero and stalls otherwise, so not-supported is the value 0.
\<close>

datatype qusb_request_return_code =
  QUSB_REQ_NOTSUPP | QUSB_REQ_HANDLED | QUSB_REQ_NEXT_CALLBACK

text \<open>
  Modelled from the spec: the constants of the request type bitmap and the request code of
  the standard "set device address" request come from the same missing header; their
  values are those of the USB specification.
\<close>

definition QUSB_REQ_TYPE_DIRECTION_MASK :: uint8_t where
  "QUSB_REQ_TYPE_DIRECTION_MASK = 0x80"

definition QUSB_REQ_TYPE_IN :: uint8_t where
  "QUSB_REQ_TYPE_IN = 0x80"

definition QUSB_REQ_SET_ADDRESS :: uint8_t where
  "QUSB_REQ_SET_ADDRESS = 5"

text \<open>
  Modelled from the spec: \<open>min_u16\<close> is an inline helper of the missing private header,
  the minimum of two \<open>uint16_t\<close> values.
\<close>

definition min_u16 :: "uint16_t \<Rightarrow> uint16_t \<Rightarrow> uint16_t" where
  "min_u16 a b = (if a < b then a else b)"

text \<open>
  A completion callback is a function pointer that the engine only stores, compares with
  \<open>NULL\<close> and calls: it is identified by a number, \<open>None\<close> is \<open>NULL\<close>.

  A control callback receives the request and the addresses of the three slots
  \<open>ctrl_buf\<close>, \<open>ctrl_len\<close> and \<open>completion\<close> of the control state. It is a function
  from the request and the contents of the slots to its return code and the new contents.
  The standard request handler \<open>_qusb_standard_request\<close> (an external function) receives
  the request and the first two slots only; every function below that reaches it takes it
  as the parameter \<open>std\<close>. The callbacks also receive the device; they are taken to
  write nothing of the control state but the slots they are handed, and not the table.
\<close>

type_synonym completion_fn = nat

type_synonym qusb_dev_control_callback_fn =
  "qusb_setup_data \<Rightarrow> ptr \<Rightarrow> uint16_t \<Rightarrow> completion_fn option
     \<Rightarrow> qusb_request_return_code \<times> ptr \<times> uint16_t \<times> completion_fn option"

type_synonym standard_request_fn =
  "qusb_setup_data \<Rightarrow> ptr \<Rightarrow> uint16_t \<Rightarrow> qusb_request_return_code \<times> ptr \<times> uint16_t"

record user_control_callback =
  cb :: "qusb_dev_control_callback_fn option"
  type :: uint8_t
  type_mask :: uint8_t

text \<open>
  What the engine does to its collaborators, in the order it does it: the calls of the
  peripheral's packet primitives, of the address assignment, and of the callbacks.
  A packet is read either into the setup data of the control state (the cast
  \<open>(uint8_t*)req\<close>) or to a byte address.
\<close>

datatype read_dest = IntoReq | IntoBuf ptr

datatype hw_event =
    EpStallSet nat nat
  | EpWritePacket nat ptr nat
  | EpReadPacket nat read_dest nat
  | SetAddress uint16_t
  | UserCallback nat qusb_setup_data
  | StandardRequest qusb_setup_data
  | Completion completion_fn qusb_setup_data

text \<open>
  The device. The fields \<open>state\<close>, \<open>req\<close>, \<open>ctrl_buf\<close>, \<open>ctrl_len\<close> and
  \<open>completion\<close> are those of \<open>dev->control_state\<close>; \<open>dev_ctrl_buf\<close> and
  \<open>ctrl_buf_len\<close> are \<open>dev->ctrl_buf\<close> and \<open>dev->ctrl_buf_len\<close>;
  \<open>bMaxPacketSize0\<close> is \<open>dev->desc->bMaxPacketSize0\<close>. The array
  \<open>user_control_callback\<close> is a list, its length is \<open>MAX_USER_CONTROL_CALLBACK\<close>.
  \<open>trace\<close> records the calls made so far, oldest first.
\<close>

record qusb_device =
  bMaxPacketSize0 :: uint8_t
  dev_ctrl_buf :: ptr
  ctrl_buf_len :: uint16_t
  state :: control_state_e
  req :: qusb_setup_data
  ctrl_buf :: ptr
  ctrl_len :: uint16_t
  completion :: "completion_fn option"
  user_control_callback :: "user_control_callback list"
  trace :: "hw_event list"

definition emit :: "hw_event \<Rightarrow> qusb_device \<Rightarrow> qusb_device" where
  "emit e dev = dev\<lparr>trace := trace dev @ [e]\<rparr>"

subsection \<open>Registration\<close>

text \<open>
  The loop of \<open>qusb_dev_register_control_callback\<close> over the array: an occupied entry
  is skipped, the first entry with a null \<open>cb\<close> is written, and the end of the array
  is the failure.
\<close>

fun register_loop ::
  "user_control_callback list \<Rightarrow> uint8_t \<Rightarrow> uint8_t \<Rightarrow> qusb_dev_control_callback_fn option
     \<Rightarrow> user_control_callback list option" where
  "register_loop [] ty m c = None"
| "register_loop (e # es) ty m c =
     (case cb e of
        Some f \<Rightarrow> map_option ((#) e) (register_loop es ty m c)
      | None \<Rightarrow> Some (e\<lparr>type := ty, type_mask := m, cb := c\<rparr> # es))"

definition qusb_dev_register_control_callback ::
  "qusb_device \<Rightarrow> uint8_t \<Rightarrow> uint8_t \<Rightarrow> qusb_dev_control_callback_fn option
     \<Rightarrow> int \<times> qusb_device" where
  "qusb_dev_register_control_callback dev ty m c =
     (case register_loop (user_control_callback dev) ty m c of
        Some tbl \<Rightarrow> (0, dev\<lparr>user_control_callback := tbl\<rparr>)
      | None \<Rightarrow> (- 1, dev))"

subsection \<open>The engine\<close>

definition stall :: "qusb_device \<Rightarrow> qusb_device" where
  "stall dev = (emit (EpStallSet 0 1) dev)\<lparr>state := IDLE\<rparr>"

definition send_data_in :: "qusb_device \<Rightarrow> qusb_device" where
  "send_data_in dev =
     (let max_packet_size = unat (bMaxPacketSize0 dev) in
      if max_packet_size < unat (ctrl_len dev) then
        (emit (EpWritePacket 0 (ctrl_buf dev) max_packet_size) dev)
          \<lparr>state := DATA_IN,
           req := (req dev)\<lparr>wLength := wLength (req dev) - ucast (bMaxPacketSize0 dev)\<rparr>,
           ctrl_buf := ctrl_buf dev + max_packet_size,
           ctrl_len := ctrl_len dev - ucast (bMaxPacketSize0 dev)\<rparr>
      else
        (emit (EpWritePacket 0 (ctrl_buf dev) (unat (ctrl_len dev))) dev)
          \<lparr>state :=
             (if unat (ctrl_len dev) = max_packet_size
                 \<and> unat (ctrl_len dev) < unat (wLength (req dev))
              then DATA_IN else LAST_DATA_IN),
           ctrl_buf := NULL,
           ctrl_len := 0\<rparr>)"

text \<open>
  \<open>read_data_out\<close>: \<open>size\<close> is what \<open>qusb_dev_ep_read_packet\<close> returns, an input of
  the model. The result is \<open>-1\<close> or the packet size.
\<close>

definition read_data_out :: "qusb_device \<Rightarrow> uint16_t \<Rightarrow> int \<times> qusb_device" where
  "read_data_out dev sz =
     (let packetsize = min_u16 (ucast (bMaxPacketSize0 dev)) (wLength (req dev) - ctrl_len dev);
          dev1 = emit (EpReadPacket 0 (IntoBuf (ctrl_buf dev + unat (ctrl_len dev)))
                   (unat packetsize)) dev
      in if sz \<noteq> packetsize then (- 1, stall dev1)
         else (uint packetsize, dev1\<lparr>ctrl_len := ctrl_len dev1 + sz\<rparr>))"

text \<open>The call of the user callback in entry \<open>i\<close>, which writes the three slots.\<close>

definition call_user_callback ::
  "nat \<Rightarrow> qusb_dev_control_callback_fn \<Rightarrow> qusb_device
     \<Rightarrow> qusb_request_return_code \<times> qusb_device" where
  "call_user_callback i f dev =
     (case f (req dev) (ctrl_buf dev) (ctrl_len dev) (completion dev) of
        (result, buf, len, compl) \<Rightarrow>
          (result, (emit (UserCallback i (req dev)) dev)
                     \<lparr>ctrl_buf := buf, ctrl_len := len, completion := compl\<rparr>))"

definition call_standard_request ::
  "standard_request_fn \<Rightarrow> qusb_device \<Rightarrow> qusb_request_return_code \<times> qusb_device" where
  "call_standard_request std dev =
     (case std (req dev) (ctrl_buf dev) (ctrl_len dev) of
        (result, buf, len) \<Rightarrow>
          (result, (emit (StandardRequest (req dev)) dev)\<lparr>ctrl_buf := buf, ctrl_len := len\<rparr>))"

text \<open>
  The loop of \<open>dispatch_request\<close>: \<open>i\<close> is the loop counter and the list is
  \<open>cb_list[i..]\<close>, the entries not visited yet. The request is always the setup data of
  the control state (both callers pass \<open>&dev->control_state.req\<close>).
\<close>

fun dispatch_loop ::
  "standard_request_fn \<Rightarrow> nat \<Rightarrow> user_control_callback list \<Rightarrow> qusb_device
     \<Rightarrow> qusb_request_return_code \<times> qusb_device" where
  "dispatch_loop std i [] dev = call_standard_request std dev"
| "dispatch_loop std i (e # es) dev =
     (case cb e of
        None \<Rightarrow> call_standard_request std dev
      | Some f \<Rightarrow>
          if (bmRequestType (req dev) AND type_mask e) = type e then
            (case call_user_callback i f dev of
               (result, dev1) \<Rightarrow>
                 if result = QUSB_REQ_HANDLED \<or> result = QUSB_REQ_NOTSUPP
                 then (result, dev1)
                 else dispatch_loop std (Suc i) es dev1)
          else dispatch_loop std (Suc i) es dev)"

definition dispatch_request ::
  "standard_request_fn \<Rightarrow> qusb_device \<Rightarrow> qusb_request_return_code \<times> qusb_device" where
  "dispatch_request std dev = dispatch_loop std 0 (user_control_callback dev) dev"

definition handle_request_no_data :: "standard_request_fn \<Rightarrow> qusb_device \<Rightarrow> qusb_device" where
  "handle_request_no_data std dev =
     (let dev1 = dev\<lparr>ctrl_buf := dev_ctrl_buf dev, ctrl_len := wLength (req dev)\<rparr>
      in case dispatch_request std dev1 of
           (result, dev2) \<Rightarrow>
             if result \<noteq> QUSB_REQ_NOTSUPP then
               (if wLength (req dev2) > 0 then send_data_in dev2
                else (emit (EpWritePacket 0 NULL 0) dev2)\<lparr>state := STATUS_IN\<rparr>)
             else stall dev2)"

definition prepare_data_out :: "qusb_device \<Rightarrow> qusb_device" where
  "prepare_data_out dev =
     (if unat (wLength (req dev)) > unat (ctrl_buf_len dev) then stall dev
      else dev\<lparr>ctrl_buf := dev_ctrl_buf dev, ctrl_len := 0,
               state := (if unat (wLength (req dev)) > unat (bMaxPacketSize0 dev)
                         then DATA_OUT else LAST_DATA_OUT)\<rparr>)"

text \<open>
  \<open>_qusb_control_setup\<close>: the read of the SETUP packet writes into \<open>req\<close> itself;
  \<open>size\<close> is what the read returns and \<open>r\<close> what \<open>req\<close> holds after it.
\<close>

definition qusb_control_setup ::
  "standard_request_fn \<Rightarrow> qusb_device \<Rightarrow> uint16_t \<Rightarrow> qusb_setup_data \<Rightarrow> qusb_device" where
  "qusb_control_setup std dev sz r =
     (let dev1 = (emit (EpReadPacket 0 IntoReq 8) (dev\<lparr>completion := None\<rparr>))\<lparr>req := r\<rparr>
      in if sz \<noteq> 8 then stall dev1
         else if wLength (req dev1) = 0
                 \<or> (bmRequestType (req dev1) AND QUSB_REQ_TYPE_DIRECTION_MASK) = QUSB_REQ_TYPE_IN
         then handle_request_no_data std dev1
         else prepare_data_out dev1)"

text \<open>\<open>_qusb_control_out\<close>: \<open>size\<close> is what the read of the OUT packet returns.\<close>

definition qusb_control_out ::
  "standard_request_fn \<Rightarrow> qusb_device \<Rightarrow> uint16_t \<Rightarrow> qusb_device" where
  "qusb_control_out std dev sz =
     (case state dev of
        DATA_OUT \<Rightarrow>
          (case read_data_out dev sz of
             (n, dev1) \<Rightarrow>
               if n < 0 then dev1
               else if uint (wLength (req dev1)) - uint (ctrl_len dev1)
                         \<le> uint (bMaxPacketSize0 dev1)
               then dev1\<lparr>state := LAST_DATA_OUT\<rparr>
               else dev1)
      | LAST_DATA_OUT \<Rightarrow>
          (case read_data_out dev sz of
             (n, dev1) \<Rightarrow>
               if n < 0 then dev1
               else (case dispatch_request std dev1 of
                       (result, dev2) \<Rightarrow>
                         if result \<noteq> QUSB_REQ_NOTSUPP
                         then (emit (EpWritePacket 0 NULL 0) dev2)\<lparr>state := STATUS_IN\<rparr>
                         else stall dev2))
      | STATUS_OUT \<Rightarrow>
          (let dev1 = (emit (EpReadPacket 0 (IntoBuf NULL) 0) dev)\<lparr>state := IDLE\<rparr>;
               dev2 = (case completion dev1 of
                         Some c \<Rightarrow> emit (Completion c (req dev1)) dev1
                       | None \<Rightarrow> dev1)
           in dev2\<lparr>completion := None\<rparr>)
      | _ \<Rightarrow> stall dev)"

definition qusb_control_in :: "qusb_device \<Rightarrow> qusb_device" where
  "qusb_control_in dev =
     (case state dev of
        DATA_IN \<Rightarrow> send_data_in dev
      | LAST_DATA_IN \<Rightarrow> dev\<lparr>state := STATUS_OUT\<rparr>
      | STATUS_IN \<Rightarrow>
          (let dev1 = (case completion dev of
                         Some c \<Rightarrow> emit (Completion c (req dev)) dev
                       | None \<Rightarrow> dev);
               dev2 = (if bmRequestType (req dev1) = 0 \<and> bRequest (req dev1) = QUSB_REQ_SET_ADDRESS
                       then emit (SetAddress (wValue (req dev1))) dev1
                       else dev1)
           in dev2\<lparr>state := IDLE\<rparr>)
      | _ \<Rightarrow> stall dev)"

subsection \<open>Events and runs\<close>

text \<open>
  The three events of endpoint 0 that the peripheral raises, each with the inputs that
  the handler reads from the peripheral.
\<close>

datatype usb_event = SETUP uint16_t qusb_setup_data | OUT uint16_t | IN

fun step :: "standard_request_fn \<Rightarrow> qusb_device \<Rightarrow> usb_event \<Rightarrow> qusb_device" where
  "step std dev (SETUP sz r) = qusb_control_setup std dev sz r"
| "step std dev (OUT sz) = qusb_control_out std dev sz"
| "step std dev IN = qusb_control_in dev"

definition run :: "standard_request_fn \<Rightarrow> qusb_device \<Rightarrow> usb_event list \<Rightarrow> qusb_device" where
  "run std dev evs = foldl (step std) dev evs"

subsection \<open>Reading the trace\<close>

text \<open>The completion callbacks called and the addresses assigned in a trace, in order.\<close>

primrec completions :: "hw_event list \<Rightarrow> completion_fn list" where
  "completions [] = []"
| "completions (e # es) =
     (case e of Completion c r \<Rightarrow> c # completions es | _ \<Rightarrow> completions es)"

primrec addresses :: "hw_event list \<Rightarrow> uint16_t list" where
  "addresses [] = []"
| "addresses (e # es) =
     (case e of SetAddress a \<Rightarrow> a # addresses es | _ \<Rightarrow> addresses es)"

primrec packet_reads :: "hw_event list \<Rightarrow> hw_event list" where
  "packet_reads [] = []"
| "packet_reads (e # es) =
     (case e of EpReadPacket ep d n \<Rightarrow> e # packet_reads es | _ \<Rightarrow> packet_reads es)"

text \<open>The lengths of the packets written in a trace, in order.\<close>

primrec packet_writes :: "hw_event list \<Rightarrow> nat list" where
  "packet_writes [] = []"
| "packet_writes (e # es) =
     (case e of EpWritePacket ep buf n \<Rightarrow> n # packet_writes es | _ \<Rightarrow> packet_writes es)"

text \<open>The calls that an operation added to the trace of \<open>dev\<close>.\<close>

definition added :: "qusb_device \<Rightarrow> qusb_device \<Rightarrow> hw_event list" where
  "added dev dev' = drop (length (trace dev)) (trace dev')"

subsection \<open>The status stage of a transfer\<close>

text \<open>
  An event ends the status stage when it is the OUT event in \<open>STATUS_OUT\<close> (the status
  packet of the host is consumed) or the IN event in \<open>STATUS_IN\<close>.
\<close>

fun status_end :: "qusb_device \<Rightarrow> usb_event \<Rightarrow> bool" where
  "status_end dev (OUT sz) = (state dev = STATUS_OUT)"
| "status_end dev IN = (state dev = STATUS_IN)"
| "status_end dev (SETUP sz r) = False"

text \<open>
  Whether a sequence of events reaches the end of the status stage, and the content of the
  completion slot at that moment.
\<close>

fun status_stage_end ::
  "standard_request_fn \<Rightarrow> qusb_device \<Rightarrow> usb_event list \<Rightarrow> completion_fn option option" where
  "status_stage_end std dev [] = None"
| "status_stage_end std dev (e # es) =
     (if status_end dev e then Some (completion dev)
      else status_stage_end std (step std dev e) es)"

fun is_setup :: "usb_event \<Rightarrow> bool" where
  "is_setup (SETUP sz r) = True"
| "is_setup (OUT sz) = False"
| "is_setup IN = False"

subsection \<open>Dispatch as the specification words it\<close>

text \<open>
  The specification's dispatch: of the registered entries, in the order of the table, those
  whose mask and pattern match the request are tried; a handler that returns handled stops
  the scan with success, one that returns not-supported stops it with failure, one that
  defers lets the next matching entry be tried; when none is decisive, the standard request
  handler decides.
\<close>

definition matching_entries ::
  "qusb_setup_data \<Rightarrow> user_control_callback list \<Rightarrow> (nat \<times> qusb_dev_control_callback_fn) list" where
  "matching_entries r tbl =
     List.map_filter
       (\<lambda>(i, e). case cb e of
                   Some f \<Rightarrow> if (bmRequestType r AND type_mask e) = type e then Some (i, f) else None
                 | None \<Rightarrow> None)
       (enumerate 0 tbl)"

fun try_handlers ::
  "standard_request_fn \<Rightarrow> (nat \<times> qusb_dev_control_callback_fn) list \<Rightarrow> qusb_device
     \<Rightarrow> bool \<times> qusb_device" where
  "try_handlers std [] dev =
     (case call_standard_request std dev of
        (result, dev1) \<Rightarrow> (result \<noteq> QUSB_REQ_NOTSUPP, dev1))"
| "try_handlers std ((i, f) # hs) dev =
     (case call_user_callback i f dev of
        (QUSB_REQ_HANDLED, dev1) \<Rightarrow> (True, dev1)
      | (QUSB_REQ_NOTSUPP, dev1) \<Rightarrow> (False, dev1)
      | (QUSB_REQ_NEXT_CALLBACK, dev1) \<Rightarrow> try_handlers std hs dev1)"

definition dispatch_spec :: "standard_request_fn \<Rightarrow> qusb_device \<Rightarrow> bool \<times> qusb_device" where
  "dispatch_spec std dev =
     try_handlers std (matching_entries (req dev) (user_control_callback dev)) dev"

text \<open>What the callers of \<open>dispatch_request\<close> test: the result is non-zero.\<close>

definition dispatch_ok ::
  "qusb_request_return_code \<times> qusb_device \<Rightarrow> bool \<times> qusb_device" where
  "dispatch_ok p = (fst p \<noteq> QUSB_REQ_NOTSUPP, snd p)"

subsection \<open>The table and the reachable states\<close>

definition is_free :: "user_control_callback \<Rightarrow> bool" where
  "is_free e = (case cb e of None \<Rightarrow> True | Some f \<Rightarrow> False)"

text \<open>The occupied entries come first: after a free entry every entry is free.\<close>

fun occupied_prefix :: "user_control_callback list \<Rightarrow> bool" where
  "occupied_prefix [] = True"
| "occupied_prefix (e # es) = (if is_free e then list_all is_free es else occupied_prefix es)"

text \<open>
  The calls that change a device: a registration or an event of endpoint 0. A device
  starts in \<open>IDLE\<close> (the first enumerator) with no callback registered.
\<close>

datatype api_call =
    Register uint8_t uint8_t "qusb_dev_control_callback_fn option"
  | Event usb_event

fun exec :: "standard_request_fn \<Rightarrow> qusb_device \<Rightarrow> api_call \<Rightarrow> qusb_device" where
  "exec std dev (Register ty m c) = snd (qusb_dev_register_control_callback dev ty m c)"
| "exec std dev (Event e) = step std dev e"

definition exec_all :: "standard_request_fn \<Rightarrow> qusb_device \<Rightarrow> api_call list \<Rightarrow> qusb_device" where
  "exec_all std dev calls = foldl (exec std) dev calls"

definition initial :: "qusb_device \<Rightarrow> bool" where
  "initial dev = (state dev = IDLE \<and> list_all is_free (user_control_callback dev))"

text \<open>The packet size that \<open>read_data_out\<close> asks the peripheral for.\<close>

definition packetsize :: "qusb_device \<Rightarrow> uint16_t" where
  "packetsize dev = min_u16 (ucast (bMaxPacketSize0 dev)) (wLength (req dev) - ctrl_len dev)"

text \<open>
  What holds while OUT data is expected: the cursor is the control buffer of the device,
  and the bytes received so far, the bytes announced and the capacity are in this order.
\<close>

definition data_out_inv :: "qusb_device \<Rightarrow> bool" where
  "data_out_inv dev =
     (state dev = DATA_OUT \<or> state dev = LAST_DATA_OUT \<longrightarrow>
        ctrl_buf dev = dev_ctrl_buf dev
        \<and> unat (ctrl_len dev) \<le> unat (wLength (req dev))
        \<and> unat (wLength (req dev)) \<le> unat (ctrl_buf_len dev))"

definition engine_inv :: "qusb_device \<Rightarrow> bool" where
  "engine_inv dev = (data_out_inv dev \<and> occupied_prefix (user_control_callback dev))"

text \<open>
  The device at the moment \<open>handle_request_no_data\<close> calls the dispatch, for a SETUP
  packet \<open>r\<close> read in full: the completion slot cleared, the request stored, the
  response buffer staged.
\<close>

definition setup_received :: "qusb_device \<Rightarrow> qusb_setup_data \<Rightarrow> qusb_device" where
  "setup_received dev r =
     (emit (EpReadPacket 0 IntoReq 8) (dev\<lparr>completion := None\<rparr>))
       \<lparr>req := r, ctrl_buf := dev_ctrl_buf dev, ctrl_len := wLength r\<rparr>"

section \<open>UART driver (uart.h)\<close>

text \<open>
  The header declares the class \<open>uart_impl\<close>; of its fields, the ones of the receive
  side are kept: the read index, the last measured size and the overrun latch. The write
  index of the receive buffer belongs to the DMA controller: it is an input (\<open>head\<close>)
  of each operation that samples it.
\<close>

definition UART_RX_BUF_LEN :: nat where
  "UART_RX_BUF_LEN = 1024"

record uart_impl =
  rx_buf_tail :: nat
  last_rx_size :: nat
  rx_overrun_occurred :: bool

text \<open>
  Modelled from the spec: the body of \<open>rx_data_len\<close> is in a source file that is
  missing; the spec has it compute the number of unread bytes from the circular indices.
\<close>

definition rx_data_len :: "uart_impl \<Rightarrow> nat \<Rightarrow> nat" where
  "rx_data_len u head =
     (if rx_buf_tail u \<le> head then head - rx_buf_tail u
      else UART_RX_BUF_LEN + head - rx_buf_tail u)"

text \<open>
  Modelled from the spec: the body of \<open>check_rx_overrun\<close> (called by \<open>poll\<close>) is
  missing. The spec has the poll sample the DMA position and set the latch when the number
  of unread bytes has decreased since the last measurement; the unread data is then
  discarded.
\<close>

definition check_rx_overrun :: "uart_impl \<Rightarrow> nat \<Rightarrow> uart_impl" where
  "check_rx_overrun u head =
     (let rx_size = rx_data_len u head in
      if rx_size < last_rx_size u
      then u\<lparr>rx_buf_tail := head, last_rx_size := 0, rx_overrun_occurred := True\<rparr>
      else u\<lparr>last_rx_size := rx_size\<rparr>)"

text \<open>
  Modelled from the spec: the body of \<open>has_rx_overrun_occurred\<close> is missing. The spec
  and the comment of its declaration make it a read-and-clear query of the latch.
\<close>

definition has_rx_overrun_occurred :: "uart_impl \<Rightarrow> bool \<times> uart_impl" where
  "has_rx_overrun_occurred u =
     (if rx_overrun_occurred u then (True, u\<lparr>rx_overrun_occurred := False\<rparr>) else (False, u))"

text \<open>
  A run of the receive side: polls, each with the DMA position it samples, and queries of
  the latch. \<open>queries\<close> collects the answers of the queries in order.
\<close>

datatype uart_call = Poll nat | Query

fun queries :: "uart_impl \<Rightarrow> uart_call list \<Rightarrow> bool list" where
  "queries u [] = []"
| "queries u (Poll head # cs) = queries (check_rx_overrun u head) cs"
| "queries u (Query # cs) =
     (case has_rx_overrun_occurred u of (b, u1) \<Rightarrow> b # queries u1 cs)"

text \<open>A poll detects an overrun when the measured size has decreased.\<close>

definition overrun_detected :: "uart_impl \<Rightarrow> nat \<Rightarrow> bool" where
  "overrun_detected u head = (rx_data_len u head < last_rx_size u)"

fun overrun_free :: "uart_impl \<Rightarrow> uart_call list \<Rightarrow> bool" where
  "overrun_free u [] = True"
| "overrun_free u (Poll head # cs) =
     (\<not> overrun_detected u head \<and> overrun_free (check_rx_overrun u head) cs)"
| "overrun_free u (Query # cs) = overrun_free (snd (has_rx_overrun_occurred u)) cs"

fun is_query :: "uart_call \<Rightarrow> bool" where
  "is_query Query = True"
| "is_query (Poll head) = False"

section \<open>Example devices, requests and callbacks\<close>

text \<open>
  A device with packets of 64 bytes on endpoint 0, a control buffer of 128 bytes at address
  4096 and a table of four free entries; callbacks that defer, reject, or answer with
  \<open>n\<close> bytes at address 8192 and register the completion callback number 7; standard
  request handlers that accept or reject everything.
\<close>

definition free_entry :: user_control_callback where
  "free_entry = \<lparr>cb = None, type = 0, type_mask = 0\<rparr>"

definition class_entry :: "qusb_dev_control_callback_fn \<Rightarrow> user_control_callback" where
  "class_entry f = \<lparr>cb = Some f, type = 0x21, type_mask = 0x7F\<rparr>"

definition example_dev :: qusb_device where
  "example_dev =
     \<lparr>bMaxPacketSize0 = 64, dev_ctrl_buf = 4096, ctrl_buf_len = 128, state = IDLE,
      req = \<lparr>bmRequestType = 0, bRequest = 0, wValue = 0, wIndex = 0, wLength = 0\<rparr>,
      ctrl_buf = NULL, ctrl_len = 0, completion = None,
      user_control_callback = [free_entry, free_entry, free_entry, free_entry],
      trace = []\<rparr>"

definition cb_defer :: qusb_dev_control_callback_fn where
  "cb_defer r buf len compl = (QUSB_REQ_NEXT_CALLBACK, buf, len, compl)"

definition cb_reject :: qusb_dev_control_callback_fn where
  "cb_reject r buf len compl = (QUSB_REQ_NOTSUPP, buf, len, compl)"

definition cb_respond :: "uint16_t \<Rightarrow> qusb_dev_control_callback_fn" where
  "cb_respond n r buf len compl = (QUSB_REQ_HANDLED, 8192, n, Some 7)"

definition std_accept :: standard_request_fn where
  "std_accept r buf len = (QUSB_REQ_HANDLED, buf, len)"

definition std_reject :: standard_request_fn where
  "std_reject r buf len = (QUSB_REQ_NOTSUPP, buf, len)"

definition with_table :: "user_control_callback list \<Rightarrow> qusb_device" where
  "with_table tbl = example_dev\<lparr>user_control_callback := tbl\<rparr>"

definition respond_dev :: "uint16_t \<Rightarrow> qusb_device" where
  "respond_dev n = with_table [class_entry (cb_respond n), free_entry, free_entry, free_entry]"

text \<open>A class request to an interface, device to host and host to device, of length \<open>n\<close>.\<close>

definition get_request :: "uint16_t \<Rightarrow> qusb_setup_data" where
  "get_request n = \<lparr>bmRequestType = 0xA1, bRequest = 0x21, wValue = 0, wIndex = 0, wLength = n\<rparr>"

definition set_request :: "uint16_t \<Rightarrow> qusb_setup_data" where
  "set_request n = \<lparr>bmRequestType = 0x21, bRequest = 0x20, wValue = 0, wIndex = 0, wLength = n\<rparr>"

definition set_address_request :: qusb_setup_data where
  "set_address_request =
     \<lparr>bmRequestType = 0, bRequest = 5, wValue = 42, wIndex = 0, wLength = 0\<rparr>"

text \<open>
  Devices that hold a request: one with two deferring callbacks, one whose first callback
  answers; a device in the middle of a response of 128 bytes to a request for \<open>n\<close>.
\<close>

definition defer_dev :: qusb_device where
  "defer_dev =
     (with_table [class_entry cb_defer, class_entry cb_defer, free_entry, free_entry])
       \<lparr>req := get_request 64\<rparr>"

definition answer_dev :: qusb_device where
  "answer_dev =
     (with_table [class_entry (cb_respond 64), class_entry cb_defer, free_entry, free_entry])
       \<lparr>req := get_request 64\<rparr>"

definition sending_dev :: "uint16_t \<Rightarrow> qusb_device" where
  "sending_dev n = example_dev\<lparr>req := get_request n, ctrl_buf := 8192, ctrl_len := 128\<rparr>"

text \<open>A UART whose last poll measured 1000 unread bytes.\<close>

definition example_uart :: uart_impl where
  "example_uart = \<lparr>rx_buf_tail = 0, last_rx_size = 1000, rx_overrun_occurred = False\<rparr>"

section \<open>Properties of the control transfer engine\<close>

lemmas fixture_defs = example_dev_def with_table_def respond_dev_def free_entry_def
  class_entry_def cb_defer_def cb_reject_def cb_respond_def std_accept_def std_reject_def
  get_request_def set_request_def set_address_request_def defer_dev_def answer_dev_def
  sending_dev_def

lemmas engine_defs = qusb_control_setup_def qusb_control_out_def qusb_control_in_def
  handle_request_no_data_def prepare_data_out_def dispatch_request_def call_user_callback_def
  call_standard_request_def send_data_in_def read_data_out_def stall_def emit_def min_u16_def
  QUSB_REQ_TYPE_DIRECTION_MASK_def QUSB_REQ_TYPE_IN_def QUSB_REQ_SET_ADDRESS_def NULL_def
  packetsize_def setup_received_def

lemmas uart_defs = example_uart_def check_rx_overrun_def overrun_detected_def rx_data_len_def
  has_rx_overrun_occurred_def UART_RX_BUF_LEN_def

subsection \<open>Registration\<close>

lemma register_loop_first_free:
  "i < length tbl \<Longrightarrow> is_free (tbl ! i) \<Longrightarrow> \<forall>j<i. \<not> is_free (tbl ! j) \<Longrightarrow>
   register_loop tbl ty m c = Some (tbl[i := \<lparr>cb = c, type = ty, type_mask = m\<rparr>])"
proof (induction tbl arbitrary: i)
  case Nil
  then show ?case by simp
next
  case (Cons e es)
  show ?case
  proof (cases i)
    case 0
    with Cons.prems show ?thesis by (simp add: is_free_def split: option.splits)
  next
    case (Suc k)
    from Cons.prems Suc have occ: "\<not> is_free e" by auto
    from Cons.prems Suc have k: "k < length es" "is_free (es ! k)" by auto
    from Cons.prems Suc have "\<forall>j<k. \<not> is_free (es ! j)" by auto
    with k have "register_loop es ty m c = Some (es[k := \<lparr>cb = c, type = ty, type_mask = m\<rparr>])"
      by (rule Cons.IH)
    with occ Suc show ?thesis by (simp add: is_free_def split: option.splits)
  qed
qed

lemma register_loop_full:
  "list_all (\<lambda>e. \<not> is_free e) tbl \<Longrightarrow> register_loop tbl ty m c = None"
  by (induction tbl) (auto simp: is_free_def split: option.splits)

text \<open>
  Claim C8. \<open>qusb_dev_register_control_callback\<close> writes the type, the mask and the
  callback into the first entry of the table whose callback slot is empty, leaves every
  other entry as it is and returns 0; when every entry is occupied it returns -1 and
  leaves the device unchanged.
\<close>
theorem register_control_callback_first_free:
  "(i < length (user_control_callback dev)
      \<and> is_free (user_control_callback dev ! i)
      \<and> (\<forall>j<i. \<not> is_free (user_control_callback dev ! j))
    \<longrightarrow> qusb_dev_register_control_callback dev ty m c
          = (0, dev\<lparr>user_control_callback :=
                     (user_control_callback dev)[i := \<lparr>cb = c, type = ty, type_mask = m\<rparr>]\<rparr>))
   \<and> (list_all (\<lambda>e. \<not> is_free e) (user_control_callback dev)
    \<longrightarrow> qusb_dev_register_control_callback dev ty m c = (- 1, dev))"
proof (intro conjI impI)
  assume "i < length (user_control_callback dev)
      \<and> is_free (user_control_callback dev ! i)
      \<and> (\<forall>j<i. \<not> is_free (user_control_callback dev ! j))"
  then have "register_loop (user_control_callback dev) ty m c
      = Some ((user_control_callback dev)[i := \<lparr>cb = c, type = ty, type_mask = m\<rparr>])"
    by (intro register_loop_first_free) simp_all
  then show "qusb_dev_register_control_callback dev ty m c
      = (0, dev\<lparr>user_control_callback :=
                 (user_control_callback dev)[i := \<lparr>cb = c, type = ty, type_mask = m\<rparr>]\<rparr>)"
    by (simp add: qusb_dev_register_control_callback_def)
next
  assume "list_all (\<lambda>e. \<not> is_free e) (user_control_callback dev)"
  then show "qusb_dev_register_control_callback dev ty m c = (- 1, dev)"
    by (simp add: qusb_dev_register_control_callback_def register_loop_full)
qed

theorem register_control_callback_first_free_witness:
  "qusb_dev_register_control_callback example_dev 0x21 0x7F (Some cb_defer)
     = (0, with_table [class_entry cb_defer, free_entry, free_entry, free_entry])
   \<and> qusb_dev_register_control_callback
        (with_table [class_entry cb_defer, class_entry cb_defer, class_entry cb_defer,
                     class_entry cb_defer]) 0x21 0x7F (Some cb_reject)
     = (- 1, with_table [class_entry cb_defer, class_entry cb_defer, class_entry cb_defer,
                     class_entry cb_defer])"
  using register_control_callback_first_free [of 0 example_dev "0x21" "0x7F" "Some cb_defer"]
    register_control_callback_first_free
      [of 0 "with_table [class_entry cb_defer, class_entry cb_defer, class_entry cb_defer,
                         class_entry cb_defer]" "0x21" "0x7F" "Some cb_reject"]
  by (simp add: fixture_defs is_free_def)

subsection \<open>Traces of the engine\<close>

lemma completions_append [simp]: "completions (xs @ ys) = completions xs @ completions ys"
  by (induction xs) (auto split: hw_event.splits)

lemma addresses_append [simp]: "addresses (xs @ ys) = addresses xs @ addresses ys"
  by (induction xs) (auto split: hw_event.splits)

lemma trace_emit [simp]: "trace (emit e dev) = trace dev @ [e]"
  by (simp add: emit_def)

lemma emit_fields [simp]:
  "state (emit e dev) = state dev" "req (emit e dev) = req dev"
  "ctrl_buf (emit e dev) = ctrl_buf dev" "ctrl_len (emit e dev) = ctrl_len dev"
  "completion (emit e dev) = completion dev"
  "user_control_callback (emit e dev) = user_control_callback dev"
  "bMaxPacketSize0 (emit e dev) = bMaxPacketSize0 dev"
  "dev_ctrl_buf (emit e dev) = dev_ctrl_buf dev"
  "ctrl_buf_len (emit e dev) = ctrl_buf_len dev"
  by (simp_all add: emit_def)

lemma stall_simps [simp]:
  "trace (stall dev) = trace dev @ [EpStallSet 0 1]"
  "state (stall dev) = IDLE"
  "completion (stall dev) = completion dev"
  "user_control_callback (stall dev) = user_control_callback dev"
  by (simp_all add: stall_def)

lemma send_data_in_quiet:
  "completions (trace (send_data_in dev)) = completions (trace dev)"
  "addresses (trace (send_data_in dev)) = addresses (trace dev)"
  by (simp_all add: send_data_in_def Let_def)

lemma read_data_out_quiet:
  "completions (trace (snd (read_data_out dev sz))) = completions (trace dev)"
  "addresses (trace (snd (read_data_out dev sz))) = addresses (trace dev)"
  by (simp_all add: read_data_out_def Let_def)

lemma call_user_callback_quiet:
  "completions (trace (snd (call_user_callback i f dev))) = completions (trace dev)"
  "addresses (trace (snd (call_user_callback i f dev))) = addresses (trace dev)"
  by (simp_all add: call_user_callback_def split: prod.splits)

lemma call_standard_request_quiet:
  "completions (trace (snd (call_standard_request std dev))) = completions (trace dev)"
  "addresses (trace (snd (call_standard_request std dev))) = addresses (trace dev)"
  by (simp_all add: call_standard_request_def split: prod.splits)

lemma dispatch_loop_quiet:
  "completions (trace (snd (dispatch_loop std i es dev))) = completions (trace dev)
   \<and> addresses (trace (snd (dispatch_loop std i es dev))) = addresses (trace dev)"
proof (induction es arbitrary: i dev)
  case Nil
  then show ?case by (simp add: call_standard_request_quiet)
next
  case (Cons e es)
  show ?case
  proof (cases "cb e")
    case None
    then show ?thesis by (simp add: call_standard_request_quiet)
  next
    case (Some f)
    show ?thesis
    proof (cases "(bmRequestType (req dev) AND type_mask e) = type e")
      case False
      with Some Cons.IH show ?thesis by simp
    next
      case True
      obtain result dev1 where c: "call_user_callback i f dev = (result, dev1)"
        by (cases "call_user_callback i f dev")
      then have q: "completions (trace dev1) = completions (trace dev)"
                   "addresses (trace dev1) = addresses (trace dev)"
        using call_user_callback_quiet [of i f dev] by simp_all
      from Some True c q Cons.IH [of "Suc i" dev1] show ?thesis by simp
    qed
  qed
qed

lemma dispatch_request_quiet:
  "completions (trace (snd (dispatch_request std dev))) = completions (trace dev)"
  "addresses (trace (snd (dispatch_request std dev))) = addresses (trace dev)"
  by (simp_all add: dispatch_request_def dispatch_loop_quiet)

lemma handle_request_no_data_quiet:
  "completions (trace (handle_request_no_data std dev)) = completions (trace dev)"
  "addresses (trace (handle_request_no_data std dev)) = addresses (trace dev)"
proof -
  let ?d1 = "dev\<lparr>ctrl_buf := dev_ctrl_buf dev, ctrl_len := wLength (req dev)\<rparr>"
  obtain result dev2 where d: "dispatch_request std ?d1 = (result, dev2)"
    by (cases "dispatch_request std ?d1")
  then have "completions (trace dev2) = completions (trace dev)"
            "addresses (trace dev2) = addresses (trace dev)"
    using dispatch_request_quiet [of std ?d1] by simp_all
  with d show "completions (trace (handle_request_no_data std dev)) = completions (trace dev)"
    "addresses (trace (handle_request_no_data std dev)) = addresses (trace dev)"
    by (simp_all add: handle_request_no_data_def Let_def send_data_in_quiet)
qed

lemma prepare_data_out_quiet:
  "completions (trace (prepare_data_out dev)) = completions (trace dev)"
  "addresses (trace (prepare_data_out dev)) = addresses (trace dev)"
  by (simp_all add: prepare_data_out_def)

lemma control_setup_quiet:
  "completions (trace (qusb_control_setup std dev sz r)) = completions (trace dev)"
  "addresses (trace (qusb_control_setup std dev sz r)) = addresses (trace dev)"
  by (simp_all add: qusb_control_setup_def Let_def handle_request_no_data_quiet
      prepare_data_out_quiet)

lemma control_out_addresses:
  "addresses (trace (qusb_control_out std dev sz)) = addresses (trace dev)"
proof (cases "state dev")
  case DATA_OUT
  obtain n dev1 where r: "read_data_out dev sz = (n, dev1)" by (cases "read_data_out dev sz")
  then have "addresses (trace dev1) = addresses (trace dev)"
    using read_data_out_quiet(2) [of dev sz] by simp
  with DATA_OUT r show ?thesis by (simp add: qusb_control_out_def)
next
  case LAST_DATA_OUT
  obtain n dev1 where r: "read_data_out dev sz = (n, dev1)" by (cases "read_data_out dev sz")
  then have a1: "addresses (trace dev1) = addresses (trace dev)"
    using read_data_out_quiet(2) [of dev sz] by simp
  obtain result dev2 where d: "dispatch_request std dev1 = (result, dev2)"
    by (cases "dispatch_request std dev1")
  then have "addresses (trace dev2) = addresses (trace dev1)"
    using dispatch_request_quiet(2) [of std dev1] by simp
  with a1 LAST_DATA_OUT r d show ?thesis by (simp add: qusb_control_out_def)
next
  case STATUS_OUT
  then show ?thesis by (simp add: qusb_control_out_def Let_def split: option.splits)
qed (simp_all add: qusb_control_out_def)

text \<open>
  Claim C4. The device address is assigned only by the IN event in state \<open>STATUS_IN\<close>,
  and there exactly when the stored request is the standard SET_ADDRESS request
  (\<open>bmRequestType = 0\<close>, \<open>bRequest = QUSB_REQ_SET_ADDRESS\<close>), with its \<open>wValue\<close>.
  The handling of a SETUP packet, every OUT event and the IN event in every other state
  (so every data stage event of any transfer) assign no address.
\<close>
theorem set_address_only_at_status_in:
  "addresses (trace (qusb_control_setup std dev sz r)) = addresses (trace dev)
   \<and> addresses (trace (qusb_control_out std dev sz')) = addresses (trace dev)
   \<and> addresses (trace (qusb_control_in dev))
       = addresses (trace dev)
         @ (if state dev = STATUS_IN \<and> bmRequestType (req dev) = 0
               \<and> bRequest (req dev) = QUSB_REQ_SET_ADDRESS
            then [wValue (req dev)] else [])"
proof (intro conjI)
  show "addresses (trace (qusb_control_setup std dev sz r)) = addresses (trace dev)"
    by (rule control_setup_quiet)
  show "addresses (trace (qusb_control_out std dev sz')) = addresses (trace dev)"
    by (rule control_out_addresses)
  show "addresses (trace (qusb_control_in dev))
       = addresses (trace dev)
         @ (if state dev = STATUS_IN \<and> bmRequestType (req dev) = 0
               \<and> bRequest (req dev) = QUSB_REQ_SET_ADDRESS
            then [wValue (req dev)] else [])"
    by (cases "state dev")
       (simp_all add: qusb_control_in_def Let_def send_data_in_quiet split: option.splits)
qed

theorem set_address_only_at_status_in_witness:
  "addresses (trace (qusb_control_setup std_accept example_dev 8 set_address_request)) = []
   \<and> state (qusb_control_setup std_accept example_dev 8 set_address_request) = STATUS_IN
   \<and> addresses (trace (qusb_control_in
         (qusb_control_setup std_accept example_dev 8 set_address_request))) = [42]"
  using set_address_only_at_status_in [of std_accept example_dev 8 set_address_request 0]
    set_address_only_at_status_in [of std_accept
       "qusb_control_setup std_accept example_dev 8 set_address_request" 8 set_address_request 0]
  by (simp add: fixture_defs engine_defs)

lemma run_Nil [simp]: "run std dev [] = dev"
  by (simp add: run_def)

lemma run_Cons [simp]: "run std dev (e # es) = run std (step std dev e) es"
  by (simp add: run_def)

lemma run_append: "run std dev (xs @ ys) = run std (run std dev xs) ys"
  by (simp add: run_def)

lemma idle_step:
  "state dev = IDLE \<Longrightarrow> \<not> is_setup e \<Longrightarrow> step std dev e = stall dev"
  by (cases e) (simp_all add: qusb_control_out_def qusb_control_in_def)

lemma idle_run:
  "state dev = IDLE \<Longrightarrow> \<forall>e\<in>set evs. \<not> is_setup e \<Longrightarrow>
   state (run std dev evs) = IDLE
   \<and> trace (run std dev evs) = trace dev @ replicate (length evs) (EpStallSet 0 1)"
proof (induction evs arbitrary: dev)
  case Nil
  then show ?case by simp
next
  case (Cons e es)
  then have s: "step std dev e = stall dev" by (simp add: idle_step)
  have "state (stall dev) = IDLE" by simp
  moreover from Cons.prems have "\<forall>e\<in>set es. \<not> is_setup e" by simp
  ultimately have "state (run std (stall dev) es) = IDLE
    \<and> trace (run std (stall dev) es) = trace (stall dev) @ replicate (length es) (EpStallSet 0 1)"
    by (rule Cons.IH)
  with s show ?case by (simp add: replicate_app_Cons_same)
qed

lemma completions_replicate_stall [simp]: "completions (replicate n (EpStallSet a b)) = []"
  by (induction n) simp_all

lemma idle_status_stage_end:
  "state dev = IDLE \<Longrightarrow> \<forall>e\<in>set evs. \<not> is_setup e \<Longrightarrow> status_stage_end std dev evs = None"
proof (induction evs arbitrary: dev)
  case Nil
  then show ?case by simp
next
  case (Cons e es)
  then have s: "step std dev e = stall dev" by (simp add: idle_step)
  from Cons.prems have ne: "\<not> status_end dev e" by (cases e) simp_all
  have "status_stage_end std (stall dev) es = None"
    using Cons.prems by (intro Cons.IH) simp_all
  with s ne show ?case by simp
qed

lemma step_status_end:
  assumes "status_end dev e"
  shows "state (step std dev e) = IDLE"
    and "completions (trace (step std dev e))
         = completions (trace dev) @ (case completion dev of Some c \<Rightarrow> [c] | None \<Rightarrow> [])"
  using assms
  by (cases e; simp add: qusb_control_out_def qusb_control_in_def Let_def split: option.splits)+

lemma step_no_completion:
  assumes "\<not> status_end dev e" and "\<not> is_setup e"
  shows "completions (trace (step std dev e)) = completions (trace dev)"
proof (cases e)
  case (SETUP sz r)
  with assms show ?thesis by simp
next
  case IN
  with assms show ?thesis
    by (cases "state dev") (simp_all add: qusb_control_in_def send_data_in_quiet)
next
  case (OUT sz)
  show ?thesis
  proof (cases "state dev")
    case DATA_OUT
    obtain n dev1 where r: "read_data_out dev sz = (n, dev1)" by (cases "read_data_out dev sz")
    then have "completions (trace dev1) = completions (trace dev)"
      using read_data_out_quiet(1) [of dev sz] by simp
    with DATA_OUT r OUT show ?thesis by (simp add: qusb_control_out_def)
  next
    case LAST_DATA_OUT
    obtain n dev1 where r: "read_data_out dev sz = (n, dev1)" by (cases "read_data_out dev sz")
    then have a1: "completions (trace dev1) = completions (trace dev)"
      using read_data_out_quiet(1) [of dev sz] by simp
    obtain result dev2 where d: "dispatch_request std dev1 = (result, dev2)"
      by (cases "dispatch_request std dev1")
    then have "completions (trace dev2) = completions (trace dev1)"
      using dispatch_request_quiet(1) [of std dev1] by simp
    with a1 LAST_DATA_OUT r d OUT show ?thesis by (simp add: qusb_control_out_def)
  next
    case STATUS_OUT
    with assms OUT show ?thesis by simp
  qed (simp_all add: OUT qusb_control_out_def)
qed

lemma run_completions:
  "\<forall>e\<in>set evs. \<not> is_setup e \<Longrightarrow>
   completions (trace (run std dev evs))
   = completions (trace dev)
     @ (case status_stage_end std dev evs of Some (Some c) \<Rightarrow> [c] | _ \<Rightarrow> [])"
proof (induction evs arbitrary: dev)
  case Nil
  then show ?case by simp
next
  case (Cons e es)
  from Cons.prems have ns: "\<not> is_setup e" and nss: "\<forall>e\<in>set es. \<not> is_setup e" by simp_all
  show ?case
  proof (cases "status_end dev e")
    case True
    have i: "state (step std dev e) = IDLE" using True by (rule step_status_end)
    have "trace (run std (step std dev e) es)
          = trace (step std dev e) @ replicate (length es) (EpStallSet 0 1)"
      using idle_run [OF i nss] by simp
    then have "completions (trace (run std (step std dev e) es))
          = completions (trace (step std dev e))" by simp
    with True step_status_end(2) [OF True, of std] show ?thesis
      by (simp split: option.splits)
  next
    case False
    from Cons.IH [OF nss, of "step std dev e"] step_no_completion [OF False ns, of std] False
    show ?thesis by simp
  qed
qed

lemma status_stage_end_stalled:
  assumes "status_stage_end std dev pre = None" and "state (run std dev pre) = IDLE"
    and "\<forall>e\<in>set post. \<not> is_setup e"
  shows "status_stage_end std dev (pre @ post) = None"
  using assms
proof (induction pre arbitrary: dev)
  case Nil
  then show ?case by (simp add: idle_status_stage_end)
next
  case (Cons e es)
  then show ?case by (simp split: if_splits)
qed

lemma control_setup_forgets_completion:
  "qusb_control_setup std (dev\<lparr>completion := c0\<rparr>) sz r = qusb_control_setup std dev sz r"
  by (simp add: qusb_control_setup_def emit_def)

text \<open>
  Claim C3. A transfer is the handling of a SETUP packet followed by IN and OUT events.
  Over a whole transfer the completion callback is called once, with the callback that the
  slot holds at that moment, if the events reach the end of the status stage (the OUT event
  in \<open>STATUS_OUT\<close> or the IN event in \<open>STATUS_IN\<close>) and a callback is registered
  then; otherwise it is not called at all. In particular it is never called when the
  engine has fallen back to \<open>IDLE\<close> by a stall before the status stage ended. What the
  completion slot held before the SETUP packet has no influence on the transfer: a
  callback of an earlier transfer is never called in a later one.
\<close>
theorem completion_once_per_transfer:
  assumes "\<forall>e\<in>set evs. \<not> is_setup e"
  shows "completions (trace (run std (qusb_control_setup std dev sz r) evs))
         = completions (trace dev)
           @ (case status_stage_end std (qusb_control_setup std dev sz r) evs of
                Some (Some c) \<Rightarrow> [c] | _ \<Rightarrow> [])
       \<and> (\<forall>pre post. evs = pre @ post
             \<and> status_stage_end std (qusb_control_setup std dev sz r) pre = None
             \<and> state (run std (qusb_control_setup std dev sz r) pre) = IDLE
            \<longrightarrow> completions (trace (run std (qusb_control_setup std dev sz r) evs))
                = completions (trace dev))
       \<and> run std (qusb_control_setup std (dev\<lparr>completion := c0\<rparr>) sz r) evs
         = run std (qusb_control_setup std dev sz r) evs"
proof (intro conjI allI impI)
  let ?d1 = "qusb_control_setup std dev sz r"
  show main: "completions (trace (run std ?d1 evs))
         = completions (trace dev)
           @ (case status_stage_end std ?d1 evs of Some (Some c) \<Rightarrow> [c] | _ \<Rightarrow> [])"
    using run_completions [OF assms, of std ?d1] by (simp add: control_setup_quiet)
  show "run std (qusb_control_setup std (dev\<lparr>completion := c0\<rparr>) sz r) evs = run std ?d1 evs"
    by (simp add: control_setup_forgets_completion)
  fix pre post
  assume a: "evs = pre @ post \<and> status_stage_end std ?d1 pre = None
             \<and> state (run std ?d1 pre) = IDLE"
  with assms have "status_stage_end std ?d1 evs = None"
    by (auto intro: status_stage_end_stalled)
  with main show "completions (trace (run std ?d1 evs)) = completions (trace dev)" by simp
qed

theorem completion_once_per_transfer_witness:
  "\<not> is_setup IN \<and> \<not> is_setup (OUT 0)
   \<and> status_stage_end std_reject
        (qusb_control_setup std_reject (respond_dev 64) 8 (get_request 64)) [IN, OUT 0]
      = Some (Some 7)
   \<and> completions (trace (run std_reject
        (qusb_control_setup std_reject (respond_dev 64) 8 (get_request 64)) [IN, OUT 0])) = [7]
   \<and> state (run std_reject
        (qusb_control_setup std_reject (respond_dev 64) 8 (get_request 64)) [OUT 0]) = IDLE
   \<and> completions (trace (run std_reject
        (qusb_control_setup std_reject (respond_dev 64) 8 (get_request 64)) [OUT 0, IN, OUT 0]))
      = []"
  using completion_once_per_transfer [of "[IN, OUT 0]" std_reject "respond_dev 64" 8
      "get_request 64" None]
    completion_once_per_transfer [of "[OUT 0, IN, OUT 0]" std_reject "respond_dev 64" 8
      "get_request 64" None]
  by (simp add: fixture_defs engine_defs)

lemma setup_short_read:
  "sz \<noteq> 8 \<Longrightarrow>
   state (qusb_control_setup std dev sz r) = IDLE
   \<and> trace (qusb_control_setup std dev sz r)
       = trace dev @ [EpReadPacket 0 IntoReq 8, EpStallSet 0 1]"
  by (simp add: qusb_control_setup_def Let_def)

lemma read_data_out_short:
  "sz \<noteq> packetsize dev \<Longrightarrow>
   read_data_out dev sz
   = (- 1, stall (emit (EpReadPacket 0 (IntoBuf (ctrl_buf dev + unat (ctrl_len dev)))
                    (unat (packetsize dev))) dev))"
  by (simp add: read_data_out_def packetsize_def Let_def)

lemma control_out_short:
  assumes "state dev = DATA_OUT \<or> state dev = LAST_DATA_OUT" and "sz < packetsize dev"
  shows "state (qusb_control_out std dev sz) = IDLE
   \<and> trace (qusb_control_out std dev sz)
       = trace dev @ [EpReadPacket 0 (IntoBuf (ctrl_buf dev + unat (ctrl_len dev)))
                        (unat (packetsize dev)), EpStallSet 0 1]"
proof -
  from assms(2) have "sz \<noteq> packetsize dev" by auto
  then have "read_data_out dev sz
   = (- 1, stall (emit (EpReadPacket 0 (IntoBuf (ctrl_buf dev + unat (ctrl_len dev)))
                    (unat (packetsize dev))) dev))"
    by (rule read_data_out_short)
  with assms(1) show ?thesis by (auto simp: qusb_control_out_def)
qed

lemma control_out_unexpected:
  "state dev \<noteq> DATA_OUT \<Longrightarrow> state dev \<noteq> LAST_DATA_OUT \<Longrightarrow> state dev \<noteq> STATUS_OUT \<Longrightarrow>
   qusb_control_out std dev sz = stall dev"
  by (cases "state dev") (simp_all add: qusb_control_out_def)

lemma control_in_unexpected:
  "state dev \<noteq> DATA_IN \<Longrightarrow> state dev \<noteq> LAST_DATA_IN \<Longrightarrow> state dev \<noteq> STATUS_IN \<Longrightarrow>
   qusb_control_in dev = stall dev"
  by (cases "state dev") (simp_all add: qusb_control_in_def)

text \<open>
  Claim C7. Each protocol violation calls \<open>qusb_dev_ep_stall_set\<close> on endpoint 0 and
  leaves the engine in \<open>IDLE\<close>: a read of the SETUP packet that returns another size
  than 8; in \<open>DATA_OUT\<close> or \<open>LAST_DATA_OUT\<close>, an OUT packet shorter than the expected
  size, the minimum of \<open>bMaxPacketSize0\<close> and the bytes still expected; an OUT event in
  a state other than \<open>DATA_OUT\<close>, \<open>LAST_DATA_OUT\<close>, \<open>STATUS_OUT\<close>; an IN event in
  a state other than \<open>DATA_IN\<close>, \<open>LAST_DATA_IN\<close>, \<open>STATUS_IN\<close>.
\<close>
theorem protocol_violations_stall:
  "(sz \<noteq> 8 \<longrightarrow>
      state (qusb_control_setup std dev sz r) = IDLE
      \<and> trace (qusb_control_setup std dev sz r)
          = trace dev @ [EpReadPacket 0 IntoReq 8, EpStallSet 0 1])
   \<and> ((state dev = DATA_OUT \<or> state dev = LAST_DATA_OUT) \<and> sz' < packetsize dev \<longrightarrow>
      state (qusb_control_out std dev sz') = IDLE
      \<and> trace (qusb_control_out std dev sz')
          = trace dev @ [EpReadPacket 0 (IntoBuf (ctrl_buf dev + unat (ctrl_len dev)))
                           (unat (packetsize dev)), EpStallSet 0 1])
   \<and> (state dev \<noteq> DATA_OUT \<and> state dev \<noteq> LAST_DATA_OUT \<and> state dev \<noteq> STATUS_OUT \<longrightarrow>
      state (qusb_control_out std dev sz') = IDLE
      \<and> trace (qusb_control_out std dev sz') = trace dev @ [EpStallSet 0 1])
   \<and> (state dev \<noteq> DATA_IN \<and> state dev \<noteq> LAST_DATA_IN \<and> state dev \<noteq> STATUS_IN \<longrightarrow>
      state (qusb_control_in dev) = IDLE
      \<and> trace (qusb_control_in dev) = trace dev @ [EpStallSet 0 1])"
  using setup_short_read [of sz std dev r] control_out_short [of dev sz' std]
  by (simp add: control_out_unexpected control_in_unexpected)

theorem protocol_violations_stall_witness:
  "state (qusb_control_setup std_accept example_dev 3 (get_request 64)) = IDLE
   \<and> trace (qusb_control_setup std_accept example_dev 3 (get_request 64))
       = [EpReadPacket 0 IntoReq 8, EpStallSet 0 1]
   \<and> state (qusb_control_setup std_accept example_dev 8 (set_request 100)) = DATA_OUT
   \<and> trace (qusb_control_out std_accept
         (qusb_control_setup std_accept example_dev 8 (set_request 100)) 10)
       = [EpReadPacket 0 IntoReq 8, EpReadPacket 0 (IntoBuf 4096) 64, EpStallSet 0 1]
   \<and> state (qusb_control_out std_accept
         (qusb_control_setup std_accept example_dev 8 (set_request 100)) 10) = IDLE
   \<and> trace (qusb_control_out std_accept example_dev 0) = [EpStallSet 0 1]
   \<and> trace (qusb_control_in example_dev) = [EpStallSet 0 1]"
  using protocol_violations_stall [of 3 std_accept example_dev "get_request 64" 0]
    protocol_violations_stall [of 8 std_accept
      "qusb_control_setup std_accept example_dev 8 (set_request 100)" "set_request 100" 10]
  by (simp add: fixture_defs engine_defs)

lemma setup_data_out:
  assumes "wLength r \<noteq> 0"
    and "(bmRequestType r AND QUSB_REQ_TYPE_DIRECTION_MASK) \<noteq> QUSB_REQ_TYPE_IN"
  shows "qusb_control_setup std dev 8 r
    = prepare_data_out ((emit (EpReadPacket 0 IntoReq 8) (dev\<lparr>completion := None\<rparr>))\<lparr>req := r\<rparr>)"
  using assms by (simp add: qusb_control_setup_def Let_def)

lemma idle_out_run:
  assumes "state dev = IDLE"
  shows "trace (run std dev (map OUT szs)) = trace dev @ replicate (length szs) (EpStallSet 0 1)"
  using idle_run [OF assms, of "map OUT szs" std] by auto

text \<open>
  Claim C6. A SETUP packet with direction OUT and \<open>wLength > 0\<close>: when \<open>wLength\<close>
  exceeds \<open>ctrl_buf_len\<close> the engine stalls at once, and the OUT events that follow
  read no packet (each one stalls again); otherwise \<open>ctrl_len\<close> is 0, \<open>ctrl_buf\<close> is
  the control buffer of the device, and the state is \<open>DATA_OUT\<close> when \<open>wLength\<close>
  exceeds \<open>bMaxPacketSize0\<close> and \<open>LAST_DATA_OUT\<close> otherwise.
\<close>
theorem setup_out_capacity_check:
  assumes "wLength r \<noteq> 0"
    and "(bmRequestType r AND QUSB_REQ_TYPE_DIRECTION_MASK) \<noteq> QUSB_REQ_TYPE_IN"
  shows "(unat (wLength r) > unat (ctrl_buf_len dev) \<longrightarrow>
            state (qusb_control_setup std dev 8 r) = IDLE
            \<and> trace (qusb_control_setup std dev 8 r)
                = trace dev @ [EpReadPacket 0 IntoReq 8, EpStallSet 0 1]
            \<and> (\<forall>szs. trace (run std (qusb_control_setup std dev 8 r) (map OUT szs))
                  = trace (qusb_control_setup std dev 8 r)
                    @ replicate (length szs) (EpStallSet 0 1)))
       \<and> (unat (wLength r) \<le> unat (ctrl_buf_len dev) \<longrightarrow>
            ctrl_len (qusb_control_setup std dev 8 r) = 0
            \<and> ctrl_buf (qusb_control_setup std dev 8 r) = dev_ctrl_buf dev
            \<and> state (qusb_control_setup std dev 8 r)
                = (if unat (wLength r) > unat (bMaxPacketSize0 dev)
                   then DATA_OUT else LAST_DATA_OUT)
            \<and> trace (qusb_control_setup std dev 8 r) = trace dev @ [EpReadPacket 0 IntoReq 8])"
proof (intro conjI impI)
  let ?d = "qusb_control_setup std dev 8 r"
  note eq = setup_data_out [OF assms, of std dev]
  {
    assume big: "unat (wLength r) > unat (ctrl_buf_len dev)"
    with eq show st: "state ?d = IDLE" by (simp add: prepare_data_out_def)
    from big eq show "trace ?d = trace dev @ [EpReadPacket 0 IntoReq 8, EpStallSet 0 1]"
      by (simp add: prepare_data_out_def)
    from st show "\<forall>szs. trace (run std ?d (map OUT szs))
                  = trace ?d @ replicate (length szs) (EpStallSet 0 1)"
      by (simp add: idle_out_run)
  }
  {
    assume fits: "unat (wLength r) \<le> unat (ctrl_buf_len dev)"
    with eq show "ctrl_len ?d = 0" by (simp add: prepare_data_out_def)
    from fits eq show "ctrl_buf ?d = dev_ctrl_buf dev" by (simp add: prepare_data_out_def)
    from fits eq show "state ?d = (if unat (wLength r) > unat (bMaxPacketSize0 dev)
                   then DATA_OUT else LAST_DATA_OUT)" by (simp add: prepare_data_out_def)
    from fits eq show "trace ?d = trace dev @ [EpReadPacket 0 IntoReq 8]"
      by (simp add: prepare_data_out_def)
  }
qed

theorem setup_out_capacity_check_witness:
  "wLength (set_request 200) \<noteq> 0
   \<and> (bmRequestType (set_request 200) AND QUSB_REQ_TYPE_DIRECTION_MASK) \<noteq> QUSB_REQ_TYPE_IN
   \<and> state (qusb_control_setup std_accept example_dev 8 (set_request 200)) = IDLE
   \<and> trace (run std_accept (qusb_control_setup std_accept example_dev 8 (set_request 200))
        (map OUT [64, 64]))
       = [EpReadPacket 0 IntoReq 8, EpStallSet 0 1, EpStallSet 0 1, EpStallSet 0 1]
   \<and> state (qusb_control_setup std_accept example_dev 8 (set_request 100)) = DATA_OUT
   \<and> state (qusb_control_setup std_accept example_dev 8 (set_request 7)) = LAST_DATA_OUT
   \<and> ctrl_buf (qusb_control_setup std_accept example_dev 8 (set_request 7)) = 4096"
  using setup_out_capacity_check [of "set_request 200" example_dev std_accept]
    setup_out_capacity_check [of "set_request 100" example_dev std_accept]
    setup_out_capacity_check [of "set_request 7" example_dev std_accept]
  by (simp add: fixture_defs engine_defs)

subsection \<open>Dispatch\<close>

lemma call_user_callback_req [simp]:
  "req (snd (call_user_callback i f dev)) = req dev"
  by (simp add: call_user_callback_def split: prod.splits)

lemma matching_free:
  "list_all is_free es \<Longrightarrow>
   List.map_filter
       (\<lambda>(i, e). case cb e of
                   Some f \<Rightarrow> if (bmRequestType r AND type_mask e) = type e then Some (i, f) else None
                 | None \<Rightarrow> None)
       (enumerate i es) = []"
  by (induction es arbitrary: i) (auto simp: is_free_def map_filter_simps split: option.splits)

lemma dispatch_loop_refines:
  "occupied_prefix es \<Longrightarrow> req dev = r \<Longrightarrow>
   dispatch_ok (dispatch_loop std i es dev)
   = try_handlers std
       (List.map_filter
         (\<lambda>(i, e). case cb e of
                   Some f \<Rightarrow> if (bmRequestType r AND type_mask e) = type e
                             then Some (i, f) else None
                 | None \<Rightarrow> None)
         (enumerate i es)) dev"
proof (induction es arbitrary: i dev)
  case Nil
  then show ?case
    by (simp add: dispatch_ok_def map_filter_simps split: prod.splits)
next
  case (Cons e es)
  show ?case
  proof (cases "cb e")
    case None
    with Cons.prems have "list_all is_free es" by (simp add: is_free_def)
    then show ?thesis using None Cons.prems(2)
      by (simp add: matching_free dispatch_ok_def map_filter_simps split: prod.splits)
  next
    case (Some f)
    with Cons.prems have p: "occupied_prefix es" by (simp add: is_free_def)
    show ?thesis
    proof (cases "(bmRequestType r AND type_mask e) = type e")
      case False
      with Some Cons.IH [OF p Cons.prems(2), of "Suc i"] Cons.prems(2) show ?thesis
        by (simp add: map_filter_simps)
    next
      case True
      with Cons.prems(2) have t: "(bmRequestType (req dev) AND type_mask e) = type e" by simp
      obtain result dev1 where c: "call_user_callback i f dev = (result, dev1)"
        by (cases "call_user_callback i f dev")
      then have r: "req dev1 = r"
        using call_user_callback_req [of i f dev] Cons.prems(2) by simp
      show ?thesis
      proof (cases result)
        case QUSB_REQ_NEXT_CALLBACK
        with Some True t c Cons.IH [OF p r, of "Suc i"] show ?thesis
          by (simp add: map_filter_simps)
      qed (use Some True t c in \<open>simp_all add: map_filter_simps dispatch_ok_def\<close>)
    qed
  qed
qed

subsection \<open>The OUT data stage and the table\<close>

lemma all_free_prefix: "list_all is_free es \<Longrightarrow> occupied_prefix es"
  by (induction es) simp_all

lemma register_loop_prefix:
  "occupied_prefix tbl \<Longrightarrow> register_loop tbl ty m c = Some tbl' \<Longrightarrow> occupied_prefix tbl'"
proof (induction tbl arbitrary: tbl')
  case Nil
  then show ?case by simp
next
  case (Cons e es)
  show ?case
  proof (cases "cb e")
    case None
    with Cons.prems have fr: "list_all is_free es"
      and eq: "tbl' = e\<lparr>type := ty, type_mask := m, cb := c\<rparr> # es"
      by (auto simp: is_free_def)
    from fr eq show ?thesis by (simp add: all_free_prefix)
  next
    case (Some f)
    with Cons.prems obtain es' where r: "register_loop es ty m c = Some es'"
      and eq: "tbl' = e # es'" by auto
    from Cons.prems Some have "occupied_prefix es" by (simp add: is_free_def)
    then have "occupied_prefix es'" using r by (rule Cons.IH)
    with eq Some show ?thesis by (simp add: is_free_def)
  qed
qed

lemma register_inv:
  "occupied_prefix (user_control_callback dev) \<Longrightarrow>
   occupied_prefix (user_control_callback (snd (qusb_dev_register_control_callback dev ty m c)))"
  by (auto simp: qusb_dev_register_control_callback_def split: option.splits
      dest: register_loop_prefix)

lemma register_fields:
  "state (snd (qusb_dev_register_control_callback dev ty m c)) = state dev"
  "req (snd (qusb_dev_register_control_callback dev ty m c)) = req dev"
  "ctrl_buf (snd (qusb_dev_register_control_callback dev ty m c)) = ctrl_buf dev"
  "ctrl_len (snd (qusb_dev_register_control_callback dev ty m c)) = ctrl_len dev"
  "dev_ctrl_buf (snd (qusb_dev_register_control_callback dev ty m c)) = dev_ctrl_buf dev"
  "ctrl_buf_len (snd (qusb_dev_register_control_callback dev ty m c)) = ctrl_buf_len dev"
  by (simp_all add: qusb_dev_register_control_callback_def split: option.splits)

lemma send_data_in_state:
  "state (send_data_in dev) = DATA_IN \<or> state (send_data_in dev) = LAST_DATA_IN"
  by (simp add: send_data_in_def Let_def)

lemma send_data_in_table [simp]:
  "user_control_callback (send_data_in dev) = user_control_callback dev"
  by (simp add: send_data_in_def Let_def)

lemma call_user_callback_table [simp]:
  "user_control_callback (snd (call_user_callback i f dev)) = user_control_callback dev"
  by (simp add: call_user_callback_def split: prod.splits)

lemma call_standard_request_table [simp]:
  "user_control_callback (snd (call_standard_request std dev)) = user_control_callback dev"
  by (simp add: call_standard_request_def split: prod.splits)

lemma dispatch_loop_table:
  "user_control_callback (snd (dispatch_loop std i es dev)) = user_control_callback dev"
proof (induction es arbitrary: i dev)
  case Nil
  then show ?case by simp
next
  case (Cons e es)
  show ?case
  proof (cases "cb e")
    case None
    then show ?thesis by simp
  next
    case (Some f)
    obtain result dev1 where c: "call_user_callback i f dev = (result, dev1)"
      by (cases "call_user_callback i f dev")
    then have "user_control_callback dev1 = user_control_callback dev"
      using call_user_callback_table [of i f dev] by simp
    with Some c Cons.IH [of "Suc i" dev1] Cons.IH [of "Suc i" dev] show ?thesis by simp
  qed
qed

lemma dispatch_request_table [simp]:
  "user_control_callback (snd (dispatch_request std dev)) = user_control_callback dev"
  by (simp add: dispatch_request_def dispatch_loop_table)

lemma handle_request_no_data_table [simp]:
  "user_control_callback (handle_request_no_data std dev) = user_control_callback dev"
proof -
  let ?d1 = "dev\<lparr>ctrl_buf := dev_ctrl_buf dev, ctrl_len := wLength (req dev)\<rparr>"
  obtain result dev2 where d: "dispatch_request std ?d1 = (result, dev2)"
    by (cases "dispatch_request std ?d1")
  then have "user_control_callback dev2 = user_control_callback dev"
    using dispatch_request_table [of std ?d1] by simp
  with d show ?thesis by (simp add: handle_request_no_data_def Let_def)
qed

lemma handle_request_no_data_state:
  "state (handle_request_no_data std dev) \<noteq> DATA_OUT
   \<and> state (handle_request_no_data std dev) \<noteq> LAST_DATA_OUT"
proof -
  let ?d1 = "dev\<lparr>ctrl_buf := dev_ctrl_buf dev, ctrl_len := wLength (req dev)\<rparr>"
  obtain result dev2 where d: "dispatch_request std ?d1 = (result, dev2)"
    by (cases "dispatch_request std ?d1")
  with send_data_in_state [of dev2] show ?thesis
    by (auto simp: handle_request_no_data_def Let_def)
qed

lemma prepare_data_out_table [simp]:
  "user_control_callback (prepare_data_out dev) = user_control_callback dev"
  by (simp add: prepare_data_out_def)

lemma prepare_data_out_inv: "data_out_inv (prepare_data_out dev)"
  by (simp add: data_out_inv_def prepare_data_out_def)

lemma control_setup_table [simp]:
  "user_control_callback (qusb_control_setup std dev sz r) = user_control_callback dev"
  by (simp add: qusb_control_setup_def Let_def)

lemma control_setup_inv: "data_out_inv (qusb_control_setup std dev sz r)"
proof -
  let ?d1 = "(emit (EpReadPacket 0 IntoReq 8) (dev\<lparr>completion := None\<rparr>))\<lparr>req := r\<rparr>"
  have "data_out_inv (stall ?d1)" by (simp add: data_out_inv_def)
  moreover have "data_out_inv (handle_request_no_data std ?d1)"
    using handle_request_no_data_state [of std ?d1] by (simp add: data_out_inv_def)
  moreover have "data_out_inv (prepare_data_out ?d1)" by (rule prepare_data_out_inv)
  ultimately show ?thesis by (simp add: qusb_control_setup_def Let_def)
qed

lemma control_in_table [simp]:
  "user_control_callback (qusb_control_in dev) = user_control_callback dev"
  by (cases "state dev") (simp_all add: qusb_control_in_def Let_def split: option.splits)

lemma control_in_inv: "data_out_inv (qusb_control_in dev)"
  using send_data_in_state [of dev]
  by (cases "state dev")
     (auto simp: qusb_control_in_def Let_def data_out_inv_def split: option.splits)

lemma unat_u8_less: "unat (x :: uint8_t) < 256"
  using unsigned_less [of x] by simp

lemma unat_ucast_u8 [simp]: "unat (ucast (x :: uint8_t) :: uint16_t) = unat x"
proof -
  have "unat x < 65536" using unat_u8_less [of x] by simp
  then show ?thesis by (simp add: unsigned_ucast_eq take_bit_nat_eq_self_iff)
qed

lemma unat_packetsize:
  assumes "unat (ctrl_len dev) \<le> unat (wLength (req dev))"
  shows "unat (packetsize dev)
         = min (unat (bMaxPacketSize0 dev)) (unat (wLength (req dev)) - unat (ctrl_len dev))"
proof -
  from assms have "ctrl_len dev \<le> wLength (req dev)" by (simp add: word_le_nat_alt)
  then have s: "unat (wLength (req dev) - ctrl_len dev)
                = unat (wLength (req dev)) - unat (ctrl_len dev)"
    by (rule unat_sub)
  have u: "unat (ucast (bMaxPacketSize0 dev) :: uint16_t) = unat (bMaxPacketSize0 dev)"
    by simp
  show ?thesis
    by (simp add: packetsize_def min_u16_def word_less_nat_alt s u min_def)
qed

lemma read_data_out_table [simp]:
  "user_control_callback (snd (read_data_out dev sz)) = user_control_callback dev"
  by (simp add: read_data_out_def Let_def)

lemma read_data_out_ok:
  assumes "unat (ctrl_len dev) \<le> unat (wLength (req dev))" and "read_data_out dev sz = (n, dev1)"
    and "\<not> n < 0"
  shows "unat (ctrl_len dev1) \<le> unat (wLength (req dev1))"
    and "req dev1 = req dev" and "ctrl_buf dev1 = ctrl_buf dev" and "state dev1 = state dev"
    and "dev_ctrl_buf dev1 = dev_ctrl_buf dev" and "ctrl_buf_len dev1 = ctrl_buf_len dev"
proof -
  from assms(2,3) have sz: "sz = packetsize dev"
    by (auto simp: read_data_out_def packetsize_def Let_def split: if_splits)
  with assms(2) have d1: "dev1 = (emit (EpReadPacket 0 (IntoBuf (ctrl_buf dev + unat (ctrl_len dev)))
                   (unat (packetsize dev))) dev)\<lparr>ctrl_len := ctrl_len dev + packetsize dev\<rparr>"
    by (auto simp: read_data_out_def packetsize_def Let_def split: if_splits)
  have p: "unat (packetsize dev) \<le> unat (wLength (req dev)) - unat (ctrl_len dev)"
    using unat_packetsize [OF assms(1)] by simp
  have "unat (ctrl_len dev + packetsize dev) \<le> unat (ctrl_len dev) + unat (packetsize dev)"
    by (simp add: unat_word_ariths)
  with p assms(1) have "unat (ctrl_len dev + packetsize dev) \<le> unat (wLength (req dev))"
    by linarith
  with d1 show "unat (ctrl_len dev1) \<le> unat (wLength (req dev1))" by simp
  from d1 show "req dev1 = req dev" "ctrl_buf dev1 = ctrl_buf dev" "state dev1 = state dev"
    "dev_ctrl_buf dev1 = dev_ctrl_buf dev" "ctrl_buf_len dev1 = ctrl_buf_len dev"
    by simp_all
qed

lemma read_data_out_fail:
  assumes "read_data_out dev sz = (n, dev1)" and "n < 0"
  shows "state dev1 = IDLE"
  using assms by (auto simp: read_data_out_def Let_def split: if_splits)

lemma control_out_table [simp]:
  "user_control_callback (qusb_control_out std dev sz) = user_control_callback dev"
proof -
  obtain n dev1 where r: "read_data_out dev sz = (n, dev1)" by (cases "read_data_out dev sz")
  then have t1: "user_control_callback dev1 = user_control_callback dev"
    using read_data_out_table [of dev sz] by simp
  obtain result dev2 where d: "dispatch_request std dev1 = (result, dev2)"
    by (cases "dispatch_request std dev1")
  then have "user_control_callback dev2 = user_control_callback dev1"
    using dispatch_request_table [of std dev1] by simp
  with t1 r d show ?thesis
    by (cases "state dev") (simp_all add: qusb_control_out_def Let_def split: option.splits)
qed

lemma control_out_inv:
  assumes "data_out_inv dev"
  shows "data_out_inv (qusb_control_out std dev sz)"
proof (cases "state dev")
  case DATA_OUT
  obtain n dev1 where r: "read_data_out dev sz = (n, dev1)" by (cases "read_data_out dev sz")
  show ?thesis
  proof (cases "n < 0")
    case True
    with r DATA_OUT read_data_out_fail [OF r] show ?thesis
      by (simp add: qusb_control_out_def data_out_inv_def)
  next
    case False
    from assms DATA_OUT have le: "unat (ctrl_len dev) \<le> unat (wLength (req dev))"
      by (simp add: data_out_inv_def)
    from read_data_out_ok [OF le r False] assms DATA_OUT
    have "data_out_inv dev1" "data_out_inv (dev1\<lparr>state := LAST_DATA_OUT\<rparr>)"
      by (simp_all add: data_out_inv_def)
    with r DATA_OUT False show ?thesis by (simp add: qusb_control_out_def)
  qed
next
  case LAST_DATA_OUT
  obtain n dev1 where r: "read_data_out dev sz = (n, dev1)" by (cases "read_data_out dev sz")
  obtain result dev2 where d: "dispatch_request std dev1 = (result, dev2)"
    by (cases "dispatch_request std dev1")
  show ?thesis
  proof (cases "n < 0")
    case True
    with r LAST_DATA_OUT read_data_out_fail [OF r] show ?thesis
      by (simp add: qusb_control_out_def data_out_inv_def)
  next
    case False
    with r d LAST_DATA_OUT show ?thesis
      by (simp add: qusb_control_out_def data_out_inv_def)
  qed
next
  case STATUS_OUT
  then show ?thesis
    by (simp add: qusb_control_out_def Let_def data_out_inv_def split: option.splits)
qed (simp_all add: qusb_control_out_def data_out_inv_def)

lemma exec_inv: "engine_inv dev \<Longrightarrow> engine_inv (exec std dev c)"
proof (cases c)
  case (Register ty m f)
  assume "engine_inv dev"
  with Register show ?thesis
    by (simp add: engine_inv_def register_inv data_out_inv_def register_fields)
next
  case (Event e)
  assume "engine_inv dev"
  with Event show ?thesis
    by (cases e) (simp_all add: engine_inv_def control_setup_inv control_out_inv control_in_inv)
qed

lemma exec_all_inv: "engine_inv dev \<Longrightarrow> engine_inv (exec_all std dev calls)"
proof (induction calls arbitrary: dev)
  case Nil
  then show ?case by (simp add: exec_all_def)
next
  case (Cons c cs)
  from Cons.prems have "engine_inv (exec std dev c)" by (rule exec_inv)
  then have "engine_inv (exec_all std (exec std dev c) cs)" by (rule Cons.IH)
  then show ?case by (simp add: exec_all_def)
qed

lemma initial_inv: "initial dev \<Longrightarrow> engine_inv dev"
  by (simp add: initial_def engine_inv_def data_out_inv_def all_free_prefix)

text \<open>
  Claim C5. On a table whose occupied entries come first, so in every state that a device
  reaches, \<open>dispatch_request\<close> does what the specification's dispatch does, with the
  same calls in the same order and the same device afterwards: the matching entries are
  tried in the order of the table; the first handler that returns handled (success) or
  not-supported (failure) ends the scan; a handler that defers lets the next matching
  entry be tried; when none is decisive the standard request handler is called and its
  result, read as a truth value, is the result of the dispatch.
\<close>
theorem dispatch_request_scan:
  "(occupied_prefix (user_control_callback dev) \<longrightarrow>
      dispatch_ok (dispatch_request std dev) = dispatch_spec std dev)
   \<and> (initial dev0 \<longrightarrow>
      dispatch_ok (dispatch_request std (exec_all std dev0 calls))
      = dispatch_spec std (exec_all std dev0 calls))"
proof (intro conjI impI)
  show "dispatch_ok (dispatch_request std d) = dispatch_spec std d"
    if "occupied_prefix (user_control_callback d)" for d
    using that
    by (simp add: dispatch_request_def dispatch_spec_def matching_entries_def
        dispatch_loop_refines)
  moreover assume "initial dev0"
  then have "engine_inv (exec_all std dev0 calls)" by (simp add: initial_inv exec_all_inv)
  then have "occupied_prefix (user_control_callback (exec_all std dev0 calls))"
    by (simp add: engine_inv_def)
  ultimately show "dispatch_ok (dispatch_request std (exec_all std dev0 calls))
      = dispatch_spec std (exec_all std dev0 calls)" .
qed

theorem dispatch_request_scan_witness:
  "occupied_prefix (user_control_callback defer_dev)
   \<and> fst (dispatch_request std_accept defer_dev) = QUSB_REQ_HANDLED
   \<and> trace (snd (dispatch_request std_accept defer_dev))
       = [UserCallback 0 (get_request 64), UserCallback 1 (get_request 64),
          StandardRequest (get_request 64)]
   \<and> dispatch_spec std_accept defer_dev = dispatch_ok (dispatch_request std_accept defer_dev)
   \<and> fst (dispatch_request std_reject defer_dev) = QUSB_REQ_NOTSUPP
   \<and> trace (snd (dispatch_request std_reject answer_dev)) = [UserCallback 0 (get_request 64)]
   \<and> dispatch_spec std_reject answer_dev = dispatch_ok (dispatch_request std_reject answer_dev)"
  using dispatch_request_scan [of defer_dev std_accept example_dev "[]"]
    dispatch_request_scan [of answer_dev std_reject example_dev "[]"]
  by (simp add: fixture_defs engine_defs is_free_def)

lemma prefix_filter_takeWhile:
  "occupied_prefix es \<Longrightarrow> filter (\<lambda>e. \<not> is_free e) es = takeWhile (\<lambda>e. \<not> is_free e) es"
proof (induction es)
  case Nil
  then show ?case by simp
next
  case (Cons e es)
  show ?case
  proof (cases "is_free e")
    case True
    with Cons.prems have "list_all is_free es" by simp
    then have "filter (\<lambda>e. \<not> is_free e) es = []" by (induction es) simp_all
    with True show ?thesis by simp
  next
    case False
    with Cons show ?thesis by simp
  qed
qed

lemma read_data_out_reads:
  "packet_reads (added dev (snd (read_data_out dev sz)))
   = [EpReadPacket 0 (IntoBuf (ctrl_buf dev + unat (ctrl_len dev))) (unat (packetsize dev))]"
  by (simp add: read_data_out_def Let_def added_def packetsize_def)

text \<open>
  Claim C9. In every state that a device reaches from its initial state (\<open>IDLE\<close>, no
  callback registered) by registrations and events: while the engine is in \<open>DATA_OUT\<close>
  or \<open>LAST_DATA_OUT\<close>, \<open>ctrl_buf\<close> is the control buffer of the device,
  \<open>ctrl_len \<le> req.wLength \<le> ctrl_buf_len\<close>, and \<open>read_data_out\<close> reads one packet
  of \<open>min(bMaxPacketSize0, req.wLength - ctrl_len)\<close> bytes at offset \<open>ctrl_len\<close> of
  that buffer, which ends inside the buffer. The occupied entries of the callback table
  form a prefix of it, so the entries before the first free one (those that the dispatch
  visits) are all the registered ones.
\<close>
theorem out_data_within_buffer:
  assumes "initial dev0" and "dev = exec_all std dev0 calls"
  shows "(state dev = DATA_OUT \<or> state dev = LAST_DATA_OUT \<longrightarrow>
            ctrl_buf dev = dev_ctrl_buf dev
            \<and> unat (ctrl_len dev) \<le> unat (wLength (req dev))
            \<and> unat (wLength (req dev)) \<le> unat (ctrl_buf_len dev)
            \<and> (\<forall>sz. packet_reads (added dev (snd (read_data_out dev sz)))
                  = [EpReadPacket 0 (IntoBuf (dev_ctrl_buf dev + unat (ctrl_len dev)))
                       (min (unat (bMaxPacketSize0 dev))
                            (unat (wLength (req dev)) - unat (ctrl_len dev)))])
            \<and> unat (ctrl_len dev)
                + min (unat (bMaxPacketSize0 dev)) (unat (wLength (req dev)) - unat (ctrl_len dev))
              \<le> unat (ctrl_buf_len dev))
       \<and> occupied_prefix (user_control_callback dev)
       \<and> filter (\<lambda>e. \<not> is_free e) (user_control_callback dev)
         = takeWhile (\<lambda>e. \<not> is_free e) (user_control_callback dev)"
proof -
  from assms have inv: "engine_inv dev" by (simp add: initial_inv exec_all_inv)
  then have pre: "occupied_prefix (user_control_callback dev)" by (simp add: engine_inv_def)
  {
    assume st: "state dev = DATA_OUT \<or> state dev = LAST_DATA_OUT"
    with inv have b: "ctrl_buf dev = dev_ctrl_buf dev"
      and l: "unat (ctrl_len dev) \<le> unat (wLength (req dev))"
      and w: "unat (wLength (req dev)) \<le> unat (ctrl_buf_len dev)"
      by (simp_all add: engine_inv_def data_out_inv_def)
    note p = unat_packetsize [OF l]
    have "\<forall>sz. packet_reads (added dev (snd (read_data_out dev sz)))
                  = [EpReadPacket 0 (IntoBuf (dev_ctrl_buf dev + unat (ctrl_len dev)))
                       (min (unat (bMaxPacketSize0 dev))
                            (unat (wLength (req dev)) - unat (ctrl_len dev)))]"
      using read_data_out_reads [of dev] b p by simp
    moreover from l w have "unat (ctrl_len dev)
                + min (unat (bMaxPacketSize0 dev)) (unat (wLength (req dev)) - unat (ctrl_len dev))
              \<le> unat (ctrl_buf_len dev)" by simp
    ultimately have "ctrl_buf dev = dev_ctrl_buf dev
            \<and> unat (ctrl_len dev) \<le> unat (wLength (req dev))
            \<and> unat (wLength (req dev)) \<le> unat (ctrl_buf_len dev)
            \<and> (\<forall>sz. packet_reads (added dev (snd (read_data_out dev sz)))
                  = [EpReadPacket 0 (IntoBuf (dev_ctrl_buf dev + unat (ctrl_len dev)))
                       (min (unat (bMaxPacketSize0 dev))
                            (unat (wLength (req dev)) - unat (ctrl_len dev)))])
            \<and> unat (ctrl_len dev)
                + min (unat (bMaxPacketSize0 dev)) (unat (wLength (req dev)) - unat (ctrl_len dev))
              \<le> unat (ctrl_buf_len dev)" using b l w by simp
  }
  with pre prefix_filter_takeWhile [OF pre] show ?thesis by blast
qed

theorem out_data_within_buffer_witness:
  "initial example_dev
   \<and> state (exec_all std_accept example_dev
        [Register 0x21 0x7F (Some cb_defer), Event (SETUP 8 (set_request 100)), Event (OUT 64)])
      = LAST_DATA_OUT
   \<and> packet_reads (added
        (exec_all std_accept example_dev
          [Register 0x21 0x7F (Some cb_defer), Event (SETUP 8 (set_request 100)), Event (OUT 64)])
        (snd (read_data_out (exec_all std_accept example_dev
          [Register 0x21 0x7F (Some cb_defer), Event (SETUP 8 (set_request 100)), Event (OUT 64)])
          36)))
      = [EpReadPacket 0 (IntoBuf 4160) 36]
   \<and> map is_free (user_control_callback (exec_all std_accept example_dev
        [Register 0x21 0x7F (Some cb_defer), Event (SETUP 8 (set_request 100)), Event (OUT 64)]))
      = [False, True, True, True]"
  using out_data_within_buffer [OF _ refl, of example_dev std_accept
      "[Register 0x21 0x7F (Some cb_defer), Event (SETUP 8 (set_request 100)), Event (OUT 64)]"]
  by (simp add: fixture_defs engine_defs initial_def is_free_def exec_all_def added_def
      qusb_dev_register_control_callback_def)

subsection \<open>The IN data stage\<close>

lemma ucast_u8_of_nat: "(ucast (x :: uint8_t) :: uint16_t) = of_nat (unat x)"
  by simp

lemma unat_sub_u8:
  assumes "unat (x :: uint8_t) \<le> unat (a :: uint16_t)"
  shows "unat (a - ucast x) = unat a - unat x"
proof -
  from assms have "(ucast x :: uint16_t) \<le> a" by (simp add: word_le_nat_alt)
  then have "unat (a - ucast x) = unat a - unat (ucast x :: uint16_t)" by (rule unat_sub)
  then show ?thesis by simp
qed

lemma send_data_in_partial:
  assumes "unat (bMaxPacketSize0 dev) < unat (ctrl_len dev)"
  shows "trace (send_data_in dev)
         = trace dev @ [EpWritePacket 0 (ctrl_buf dev) (unat (bMaxPacketSize0 dev))]"
    and "state (send_data_in dev) = DATA_IN"
    and "ctrl_buf (send_data_in dev) = ctrl_buf dev + unat (bMaxPacketSize0 dev)"
    and "unat (ctrl_len (send_data_in dev)) = unat (ctrl_len dev) - unat (bMaxPacketSize0 dev)"
    and "wLength (req (send_data_in dev)) = wLength (req dev) - ucast (bMaxPacketSize0 dev)"
    and "bMaxPacketSize0 (send_data_in dev) = bMaxPacketSize0 dev"
    and "completion (send_data_in dev) = completion dev"
  using assms by (simp_all add: send_data_in_def Let_def unat_sub_u8)

lemma send_data_in_final:
  assumes "\<not> unat (bMaxPacketSize0 dev) < unat (ctrl_len dev)"
  shows "trace (send_data_in dev)
         = trace dev @ [EpWritePacket 0 (ctrl_buf dev) (unat (ctrl_len dev))]"
    and "state (send_data_in dev)
         = (if unat (ctrl_len dev) = unat (bMaxPacketSize0 dev)
               \<and> unat (ctrl_len dev) < unat (wLength (req dev))
            then DATA_IN else LAST_DATA_IN)"
    and "ctrl_len (send_data_in dev) = 0"
    and "req (send_data_in dev) = req dev"
    and "completion (send_data_in dev) = completion dev"
  using assms by (simp_all add: send_data_in_def Let_def)

lemma send_full_packets:
  assumes "unat (bMaxPacketSize0 dev) = m" and "j * m < unat (ctrl_len dev)"
  shows "trace ((send_data_in ^^ j) dev)
           = trace dev @ map (\<lambda>i. EpWritePacket 0 (ctrl_buf dev + i * m) m) [0..<j]
         \<and> ctrl_buf ((send_data_in ^^ j) dev) = ctrl_buf dev + j * m
         \<and> unat (ctrl_len ((send_data_in ^^ j) dev)) = unat (ctrl_len dev) - j * m
         \<and> wLength (req ((send_data_in ^^ j) dev)) = wLength (req dev) - of_nat (j * m)
         \<and> bMaxPacketSize0 ((send_data_in ^^ j) dev) = bMaxPacketSize0 dev
         \<and> completion ((send_data_in ^^ j) dev) = completion dev
         \<and> (0 < j \<longrightarrow> state ((send_data_in ^^ j) dev) = DATA_IN)"
  using assms(2)
proof (induction j)
  case 0
  then show ?case by simp
next
  case (Suc j)
  let ?d = "(send_data_in ^^ j) dev"
  from Suc.prems have lt: "j * m < unat (ctrl_len dev)" by simp
  note ih = Suc.IH [OF lt]
  from ih have mps: "unat (bMaxPacketSize0 ?d) = m" using assms(1) by simp
  from ih Suc.prems have more: "unat (bMaxPacketSize0 ?d) < unat (ctrl_len ?d)"
    using mps by simp
  note p = send_data_in_partial [OF more]
  have w: "wLength (req dev) - of_nat (j * m) - ucast (bMaxPacketSize0 ?d)
           = wLength (req dev) - of_nat (Suc j * m)"
    using mps by (simp add: ucast_u8_of_nat)
  have "trace (send_data_in ?d)
        = trace dev @ map (\<lambda>i. EpWritePacket 0 (ctrl_buf dev + i * m) m) [0..<Suc j]"
    using p(1) ih mps by simp
  moreover have "ctrl_buf (send_data_in ?d) = ctrl_buf dev + Suc j * m"
    using p(3) ih mps by simp
  moreover have "unat (ctrl_len (send_data_in ?d)) = unat (ctrl_len dev) - Suc j * m"
    using p(4) ih mps by simp
  moreover have "wLength (req (send_data_in ?d)) = wLength (req dev) - of_nat (Suc j * m)"
    using p(5) ih w by simp
  moreover have "bMaxPacketSize0 (send_data_in ?d) = bMaxPacketSize0 dev"
    using p(6) ih by simp
  moreover have "completion (send_data_in ?d) = completion dev"
    using p(7) ih by simp
  ultimately show ?case using p(2) by simp
qed

lemma send_last_packet:
  assumes m: "unat (bMaxPacketSize0 dev) = m" and L: "unat (ctrl_len dev) = L"
    and up: "L \<le> (k + 1) * m" and lo: "k = 0 \<or> k * m < L"
  shows "trace ((send_data_in ^^ Suc k) dev)
           = trace ((send_data_in ^^ k) dev) @ [EpWritePacket 0 (ctrl_buf dev + k * m) (L - k * m)]"
    and "state ((send_data_in ^^ Suc k) dev)
           = (if L - k * m = m \<and> m < unat (wLength (req dev) - of_nat (k * m))
              then DATA_IN else LAST_DATA_IN)"
    and "completion ((send_data_in ^^ Suc k) dev) = completion dev"
    and "req ((send_data_in ^^ Suc k) dev) = req ((send_data_in ^^ k) dev)"
proof -
  let ?d = "(send_data_in ^^ k) dev"
  have f: "ctrl_buf ?d = ctrl_buf dev + k * m \<and> unat (ctrl_len ?d) = L - k * m
         \<and> wLength (req ?d) = wLength (req dev) - of_nat (k * m)
         \<and> bMaxPacketSize0 ?d = bMaxPacketSize0 dev \<and> completion ?d = completion dev"
  proof (cases "k = 0")
    case True
    with L show ?thesis by simp
  next
    case False
    with lo L have "k * m < unat (ctrl_len dev)" by simp
    from send_full_packets [OF m this] L show ?thesis by simp
  qed
  with m up have fin: "\<not> unat (bMaxPacketSize0 ?d) < unat (ctrl_len ?d)" by simp
  note q = send_data_in_final [OF fin]
  show "trace ((send_data_in ^^ Suc k) dev)
           = trace ?d @ [EpWritePacket 0 (ctrl_buf dev + k * m) (L - k * m)]"
    using q(1) f by simp
  show "state ((send_data_in ^^ Suc k) dev)
           = (if L - k * m = m \<and> m < unat (wLength (req dev) - of_nat (k * m))
              then DATA_IN else LAST_DATA_IN)"
    using q(2) f m by auto
  show "completion ((send_data_in ^^ Suc k) dev) = completion dev"
    using q(5) f by simp
  show "req ((send_data_in ^^ Suc k) dev) = req ?d"
    using q(4) by simp
qed

lemma unat_wLength_sub:
  assumes "n \<le> unat (w :: uint16_t)"
  shows "unat (w - of_nat n) = unat w - n"
proof -
  have "unat w < 2 ^ 16" using unsigned_less [of w] by simp
  with assms have n: "n < 2 ^ 16" by simp
  then have u: "unat (of_nat n :: uint16_t) = n" by (simp add: unat_of_nat)
  with assms have "(of_nat n :: uint16_t) \<le> w" by (simp add: word_le_nat_alt)
  then have "unat (w - of_nat n) = unat w - unat (of_nat n :: uint16_t)" by (rule unat_sub)
  with u show ?thesis by simp
qed

lemma send_data_in_final_cursor:
  assumes "\<not> unat (bMaxPacketSize0 dev) < unat (ctrl_len dev)"
  shows "ctrl_buf (send_data_in dev) = NULL"
    and "bMaxPacketSize0 (send_data_in dev) = bMaxPacketSize0 dev"
  using assms by (simp_all add: send_data_in_def Let_def)

text \<open>
  Claim C2, as stated, fails: a response of 128 bytes to a request for 128 bytes, with
  packets of 64 bytes. The second packet is the final one, it is exactly a full packet and
  it is shorter than the 128 bytes requested, yet the engine goes to \<open>LAST_DATA_IN\<close>:
  the code compares with what is left of \<open>wLength\<close> after the first packet, 64.
\<close>

theorem send_data_in_final_packet_counterexample:
  "state (qusb_control_setup std_reject (respond_dev 128) 8 (get_request 128)) = DATA_IN
   \<and> unat (ctrl_len (qusb_control_setup std_reject (respond_dev 128) 8 (get_request 128))) = 64
   \<and> unat (bMaxPacketSize0 (respond_dev 128)) = 64
   \<and> \<not> (state (send_data_in
              (qusb_control_setup std_reject (respond_dev 128) 8 (get_request 128))) = DATA_IN
          \<longleftrightarrow> unat (ctrl_len
                 (qusb_control_setup std_reject (respond_dev 128) 8 (get_request 128)))
               = unat (bMaxPacketSize0 (respond_dev 128))
             \<and> unat (ctrl_len
                 (qusb_control_setup std_reject (respond_dev 128) 8 (get_request 128)))
               < unat (wLength (get_request 128)))"
  by (simp add: fixture_defs engine_defs)

text \<open>
  Claim C2, amended. For a response of \<open>L\<close> bytes, not longer than the \<open>wLength\<close>
  requested (\<open>W\<close>), sent in packets of \<open>m\<close> bytes, of which \<open>k\<close> are sent while
  more than one packet remains: each of the first \<open>k\<close> calls of \<open>send_data_in\<close>
  finds more than \<open>m\<close> bytes left, writes a full packet, leaves the state \<open>DATA_IN\<close>,
  advances \<open>ctrl_buf\<close> by \<open>m\<close> and reduces \<open>ctrl_len\<close> and \<open>req.wLength\<close> by
  \<open>m\<close>. The next call finds the remaining \<open>L - k * m\<close> bytes fit in one packet,
  writes them and clears \<open>ctrl_len\<close> and \<open>ctrl_buf\<close>; the state stays \<open>DATA_IN\<close>
  if and only if that final packet is exactly a full packet and is shorter than what is
  left of \<open>req.wLength\<close>, which is to say that the whole response is shorter than the
  \<open>wLength\<close> originally requested; otherwise the state is \<open>LAST_DATA_IN\<close>. When
  the state stays \<open>DATA_IN\<close>, the call after that writes one zero-length packet and
  goes to \<open>LAST_DATA_IN\<close>.
\<close>
theorem send_data_in_chunking:
  assumes m: "unat (bMaxPacketSize0 dev) = m" and L: "unat (ctrl_len dev) = L"
    and W: "unat (wLength (req dev)) = W" and LW: "L \<le> W"
    and up: "L \<le> (k + 1) * m" and lo: "k = 0 \<or> k * m < L"
  shows "(\<forall>j<k. m < unat (ctrl_len ((send_data_in ^^ j) dev))
              \<and> state ((send_data_in ^^ Suc j) dev) = DATA_IN
              \<and> trace ((send_data_in ^^ Suc j) dev)
                  = trace ((send_data_in ^^ j) dev) @ [EpWritePacket 0 (ctrl_buf dev + j * m) m]
              \<and> ctrl_buf ((send_data_in ^^ Suc j) dev) = ctrl_buf ((send_data_in ^^ j) dev) + m
              \<and> unat (ctrl_len ((send_data_in ^^ Suc j) dev)) + m
                  = unat (ctrl_len ((send_data_in ^^ j) dev))
              \<and> unat (wLength (req ((send_data_in ^^ Suc j) dev))) + m
                  = unat (wLength (req ((send_data_in ^^ j) dev))))
       \<and> unat (ctrl_len ((send_data_in ^^ k) dev)) = L - k * m
       \<and> unat (wLength (req ((send_data_in ^^ k) dev))) = W - k * m
       \<and> L - k * m \<le> m
       \<and> trace ((send_data_in ^^ Suc k) dev)
           = trace ((send_data_in ^^ k) dev) @ [EpWritePacket 0 (ctrl_buf dev + k * m) (L - k * m)]
       \<and> ctrl_len ((send_data_in ^^ Suc k) dev) = 0
       \<and> ctrl_buf ((send_data_in ^^ Suc k) dev) = NULL
       \<and> state ((send_data_in ^^ Suc k) dev)
           = (if L - k * m = m \<and> m < W - k * m then DATA_IN else LAST_DATA_IN)
       \<and> state ((send_data_in ^^ Suc k) dev)
           = (if L - k * m = m \<and> L < W then DATA_IN else LAST_DATA_IN)
       \<and> (L - k * m = m \<and> L < W \<and> 0 < m \<longrightarrow>
            trace ((send_data_in ^^ Suc (Suc k)) dev)
              = trace ((send_data_in ^^ Suc k) dev) @ [EpWritePacket 0 NULL 0]
            \<and> state ((send_data_in ^^ Suc (Suc k)) dev) = LAST_DATA_IN)"
proof -
  let ?S = "\<lambda>j. (send_data_in ^^ j) dev"
  have kL: "k * m \<le> L" using lo by auto
  have full: "unat (ctrl_len (?S j)) = L - j * m
              \<and> unat (wLength (req (?S j))) = W - j * m
              \<and> ctrl_buf (?S j) = ctrl_buf dev + j * m
              \<and> bMaxPacketSize0 (?S j) = bMaxPacketSize0 dev
              \<and> trace (?S j) = trace dev @ map (\<lambda>i. EpWritePacket 0 (ctrl_buf dev + i * m) m) [0..<j]
              \<and> (0 < j \<longrightarrow> state (?S j) = DATA_IN)"
    if "j \<le> k" for j
  proof (cases "j = 0")
    case True
    with L W show ?thesis by simp
  next
    case False
    with that lo have k0: "k * m < L" by auto
    from that have "j * m \<le> k * m" by (rule mult_le_mono1)
    then have "j * m < L" using k0 by (rule le_less_trans)
    with L have lt: "j * m < unat (ctrl_len dev)" by simp
    with L LW W have "j * m \<le> unat (wLength (req dev))" by simp
    then have "unat (wLength (req dev) - of_nat (j * m)) = unat (wLength (req dev)) - j * m"
      by (rule unat_wLength_sub)
    with send_full_packets [OF m lt] L W show ?thesis by simp
  qed
  have steps: "\<forall>j<k. m < unat (ctrl_len (?S j))
              \<and> state (?S (Suc j)) = DATA_IN
              \<and> trace (?S (Suc j)) = trace (?S j) @ [EpWritePacket 0 (ctrl_buf dev + j * m) m]
              \<and> ctrl_buf (?S (Suc j)) = ctrl_buf (?S j) + m
              \<and> unat (ctrl_len (?S (Suc j))) + m = unat (ctrl_len (?S j))
              \<and> unat (wLength (req (?S (Suc j)))) + m = unat (wLength (req (?S j)))"
  proof (intro allI impI)
    fix j assume jk: "j < k"
    then have sj: "Suc j \<le> k" and j: "j \<le> k" by simp_all
    from jk lo have k0: "k * m < L" by auto
    from sj have "Suc j * m \<le> k * m" by (rule mult_le_mono1)
    then have "Suc j * m < L" using k0 by (rule le_less_trans)
    then have a: "j * m + m < L" by (simp add: add.commute)
    with LW have b: "j * m + m \<le> W" by simp
    from full [OF sj] full [OF j] a b
    show "m < unat (ctrl_len (?S j))
              \<and> state (?S (Suc j)) = DATA_IN
              \<and> trace (?S (Suc j)) = trace (?S j) @ [EpWritePacket 0 (ctrl_buf dev + j * m) m]
              \<and> ctrl_buf (?S (Suc j)) = ctrl_buf (?S j) + m
              \<and> unat (ctrl_len (?S (Suc j))) + m = unat (ctrl_len (?S j))
              \<and> unat (wLength (req (?S (Suc j)))) + m = unat (wLength (req (?S j)))"
      by simp
  qed
  note fk = full [OF order_refl]
  from fk m up have fin: "\<not> unat (bMaxPacketSize0 (?S k)) < unat (ctrl_len (?S k))" by simp
  note q = send_data_in_final [OF fin]
  note c = send_data_in_final_cursor [OF fin]
  have rest: "L - k * m \<le> m" using up by simp
  have tr: "trace (?S (Suc k)) = trace (?S k) @ [EpWritePacket 0 (ctrl_buf dev + k * m) (L - k * m)]"
    using q(1) fk by simp
  have len0: "ctrl_len (?S (Suc k)) = 0" using q(3) by simp
  have buf0: "ctrl_buf (?S (Suc k)) = NULL" using c(1) by simp
  have st: "state (?S (Suc k)) = (if L - k * m = m \<and> m < W - k * m then DATA_IN else LAST_DATA_IN)"
    using q(2) fk m by simp
  have iff: "(L - k * m = m \<and> m < W - k * m) \<longleftrightarrow> (L - k * m = m \<and> L < W)"
    using kL LW by auto
  have st': "state (?S (Suc k)) = (if L - k * m = m \<and> L < W then DATA_IN else LAST_DATA_IN)"
    using st iff by simp
  have zlp: "trace (?S (Suc (Suc k))) = trace (?S (Suc k)) @ [EpWritePacket 0 NULL 0]
            \<and> state (?S (Suc (Suc k))) = LAST_DATA_IN"
    if "L - k * m = m \<and> L < W \<and> 0 < m"
  proof -
    let ?d = "?S (Suc k)"
    from len0 have fin2: "\<not> unat (bMaxPacketSize0 ?d) < unat (ctrl_len ?d)" by simp
    have m2: "unat (bMaxPacketSize0 ?d) = m" using c(2) fk m by simp
    from send_data_in_final(1,2) [OF fin2] len0 buf0 m2 that show ?thesis by simp
  qed
  from steps fk rest tr len0 buf0 st st' zlp show ?thesis by blast
qed

theorem send_data_in_chunking_witness:
  "unat (bMaxPacketSize0 (sending_dev 192)) = 64 \<and> unat (ctrl_len (sending_dev 192)) = 128
   \<and> unat (wLength (req (sending_dev 192))) = 192
   \<and> state ((send_data_in ^^ Suc 0) (sending_dev 192)) = DATA_IN
   \<and> unat (ctrl_len ((send_data_in ^^ Suc 0) (sending_dev 192))) = 64
   \<and> unat (wLength (req ((send_data_in ^^ Suc 0) (sending_dev 192)))) = 128
   \<and> state ((send_data_in ^^ Suc 1) (sending_dev 192)) = DATA_IN
   \<and> ctrl_len ((send_data_in ^^ Suc 1) (sending_dev 192)) = 0
   \<and> packet_writes (trace ((send_data_in ^^ Suc (Suc 1)) (sending_dev 192))) = [64, 64, 0]
   \<and> state ((send_data_in ^^ Suc (Suc 1)) (sending_dev 192)) = LAST_DATA_IN
   \<and> packet_writes (trace ((send_data_in ^^ Suc 1) (sending_dev 128))) = [64, 64]
   \<and> state ((send_data_in ^^ Suc 1) (sending_dev 128)) = LAST_DATA_IN"
  using send_data_in_chunking [of "sending_dev 192" 64 128 192 1]
    send_data_in_chunking [of "sending_dev 128" 64 128 128 1]
  by (simp add: fixture_defs engine_defs)

lemma call_user_callback_frame:
  "req (snd (call_user_callback i f dev)) = req dev
   \<and> bMaxPacketSize0 (snd (call_user_callback i f dev)) = bMaxPacketSize0 dev"
  by (simp add: call_user_callback_def split: prod.splits)

lemma call_standard_request_frame:
  "req (snd (call_standard_request std dev)) = req dev
   \<and> bMaxPacketSize0 (snd (call_standard_request std dev)) = bMaxPacketSize0 dev"
  by (simp add: call_standard_request_def split: prod.splits)

lemma dispatch_loop_frame:
  "req (snd (dispatch_loop std i es dev)) = req dev
   \<and> bMaxPacketSize0 (snd (dispatch_loop std i es dev)) = bMaxPacketSize0 dev"
proof (induction es arbitrary: i dev)
  case Nil
  then show ?case by (simp add: call_standard_request_frame)
next
  case (Cons e es)
  show ?case
  proof (cases "cb e")
    case None
    then show ?thesis by (simp add: call_standard_request_frame)
  next
    case (Some f)
    obtain result dev1 where c: "call_user_callback i f dev = (result, dev1)"
      by (cases "call_user_callback i f dev")
    then have "req dev1 = req dev \<and> bMaxPacketSize0 dev1 = bMaxPacketSize0 dev"
      using call_user_callback_frame [of i f dev] by simp
    with Some c Cons.IH [of "Suc i" dev1] Cons.IH [of "Suc i" dev] show ?thesis by simp
  qed
qed

lemma dispatch_request_frame:
  assumes "dispatch_request std dev = (result, dev2)"
  shows "req dev2 = req dev" and "bMaxPacketSize0 dev2 = bMaxPacketSize0 dev"
  using assms dispatch_loop_frame [of std 0 "user_control_callback dev" dev]
  by (simp_all add: dispatch_request_def)

lemma setup_in_handled:
  assumes dir: "(bmRequestType r AND QUSB_REQ_TYPE_DIRECTION_MASK) = QUSB_REQ_TYPE_IN"
    and len: "wLength r \<noteq> 0"
    and disp: "dispatch_request std (setup_received dev r) = (result, dev2)"
    and ok: "result \<noteq> QUSB_REQ_NOTSUPP"
  shows "qusb_control_setup std dev 8 r = send_data_in dev2"
proof -
  have r2: "req dev2 = r" using dispatch_request_frame(1) [OF disp]
    by (simp add: setup_received_def)
  from len have "0 < wLength r" by (simp add: word_greater_zero_iff)
  with dir disp ok r2 show ?thesis
    by (simp add: qusb_control_setup_def handle_request_no_data_def Let_def setup_received_def)
qed

lemma control_in_data_in: "state dev = DATA_IN \<Longrightarrow> qusb_control_in dev = send_data_in dev"
  by (simp add: qusb_control_in_def)

lemma control_in_iterates:
  assumes "unat (bMaxPacketSize0 dev) = m" and "j = 0 \<or> j * m < unat (ctrl_len dev)"
  shows "(qusb_control_in ^^ j) (send_data_in dev) = (send_data_in ^^ Suc j) dev"
  using assms(2)
proof (induction j)
  case 0
  then show ?case by simp
next
  case (Suc j)
  from Suc.prems have lt: "Suc j * m < unat (ctrl_len dev)" by simp
  then have "j = 0 \<or> j * m < unat (ctrl_len dev)" by simp
  then have ih: "(qusb_control_in ^^ j) (send_data_in dev) = (send_data_in ^^ Suc j) dev"
    by (rule Suc.IH)
  from send_full_packets [OF assms(1) lt]
  have "state ((send_data_in ^^ Suc j) dev) = DATA_IN" by simp
  then have "qusb_control_in ((send_data_in ^^ Suc j) dev)
             = send_data_in ((send_data_in ^^ Suc j) dev)"
    by (rule control_in_data_in)
  with ih show ?case by simp
qed

lemma control_in_last_data_in:
  "state dev = LAST_DATA_IN \<Longrightarrow> qusb_control_in dev = dev\<lparr>state := STATUS_OUT\<rparr>"
  by (simp add: qusb_control_in_def)

lemma control_out_status_out:
  "state dev = STATUS_OUT \<Longrightarrow>
   state (qusb_control_out std dev sz) = IDLE
   \<and> trace (qusb_control_out std dev sz)
       = trace dev @ [EpReadPacket 0 (IntoBuf NULL) 0]
         @ (case completion dev of Some c \<Rightarrow> [Completion c (req dev)] | None \<Rightarrow> [])"
  by (simp add: qusb_control_out_def Let_def split: option.splits)

text \<open>
  Claim C1, as stated, fails: a request for 128 bytes answered with exactly 128 bytes, with
  packets of 64 bytes. Two packets of 64 bytes are written, by the SETUP handling and by
  the first IN event; the second IN event writes no zero-length packet, it moves the
  engine to \<open>STATUS_OUT\<close>.
\<close>

theorem in_transfer_zero_length_packet_counterexample:
  "packet_writes (trace (run std_reject (respond_dev 128) [SETUP 8 (get_request 128), IN]))
     = [64, 64]
   \<and> state (run std_reject (respond_dev 128) [SETUP 8 (get_request 128), IN]) = LAST_DATA_IN
   \<and> state (run std_reject (respond_dev 128) [SETUP 8 (get_request 128), IN, IN]) = STATUS_OUT
   \<and> packet_writes (trace (run std_reject (respond_dev 128) [SETUP 8 (get_request 128), IN, IN]))
       \<noteq> [64, 64, 0]
   \<and> packet_writes (trace (run std_reject (respond_dev 128)
         [SETUP 8 (get_request 128), IN, IN, OUT 0])) = [64, 64]"
  by (simp add: fixture_defs engine_defs)

text \<open>
  Claim C1, amended. A SETUP packet with direction IN and \<open>wLength = N\<close>, a nonzero
  multiple \<open>k * m\<close> of the packet size \<open>m\<close>, whose dispatch succeeds and leaves
  \<open>ctrl_len = N\<close>: the handling of the SETUP packet and the \<open>k - 1\<close> IN events that
  follow write exactly \<open>k\<close> packets of \<open>m\<close> bytes, consecutive in the response
  buffer, and no zero-length packet, and leave the engine in \<open>LAST_DATA_IN\<close>; the next
  IN event writes nothing and moves it to \<open>STATUS_OUT\<close>; the OUT event after that
  consumes the status packet of the host, calls the completion callback if one is
  registered, and ends in \<open>IDLE\<close>.
\<close>
theorem in_transfer_exact_multiple:
  assumes dir: "(bmRequestType r AND QUSB_REQ_TYPE_DIRECTION_MASK) = QUSB_REQ_TYPE_IN"
    and m: "unat (bMaxPacketSize0 dev) = m"
    and N: "unat (wLength r) = k * m" and len: "wLength r \<noteq> 0"
    and disp: "dispatch_request std (setup_received dev r) = (result, dev2)"
    and ok: "result \<noteq> QUSB_REQ_NOTSUPP"
    and supplied: "ctrl_len dev2 = wLength r"
    and after: "after = (qusb_control_in ^^ (k - 1)) (qusb_control_setup std dev 8 r)"
  shows "trace after = trace dev2 @ map (\<lambda>i. EpWritePacket 0 (ctrl_buf dev2 + i * m) m) [0..<k]
       \<and> state after = LAST_DATA_IN
       \<and> qusb_control_in after = after\<lparr>state := STATUS_OUT\<rparr>
       \<and> state (qusb_control_out std (qusb_control_in after) sz) = IDLE
       \<and> trace (qusb_control_out std (qusb_control_in after) sz)
           = trace after @ [EpReadPacket 0 (IntoBuf NULL) 0]
             @ (case completion dev2 of Some c \<Rightarrow> [Completion c (req after)] | None \<Rightarrow> [])"
proof -
  from N len have k: "0 < k" and mpos: "0 < m"
    by (auto simp: unat_eq_0 intro: Nat.gr0I)
  from m have m2: "unat (bMaxPacketSize0 dev2) = m"
    using dispatch_request_frame(2) [OF disp] by (simp add: setup_received_def)
  from N supplied have L: "unat (ctrl_len dev2) = k * m" by simp
  have r2: "req dev2 = r" using dispatch_request_frame(1) [OF disp]
    by (simp add: setup_received_def)
  have s: "qusb_control_setup std dev 8 r = send_data_in dev2"
    by (rule setup_in_handled [OF dir len disp ok])
  obtain j where j: "k = Suc j" using k by (cases k) simp_all
  have lo: "j = 0 \<or> j * m < k * m" using j mpos by simp
  have "after = (qusb_control_in ^^ j) (send_data_in dev2)" using after s j by simp
  also have "\<dots> = (send_data_in ^^ Suc j) dev2"
    using lo L by (intro control_in_iterates [OF m2]) simp
  finally have a: "after = (send_data_in ^^ Suc j) dev2" .
  have up: "k * m \<le> (j + 1) * m" using j by simp
  note last = send_last_packet [OF m2 L up lo]
  have km: "k * m - j * m = m" using j by simp
  have w: "unat (wLength (req dev2) - of_nat (j * m)) = m"
  proof -
    have "j * m \<le> unat (wLength (req dev2))" using r2 N j by simp
    then have "unat (wLength (req dev2) - of_nat (j * m)) = unat (wLength (req dev2)) - j * m"
      by (rule unat_wLength_sub)
    with r2 N km show ?thesis by simp
  qed
  have tr_j: "trace ((send_data_in ^^ j) dev2)
              = trace dev2 @ map (\<lambda>i. EpWritePacket 0 (ctrl_buf dev2 + i * m) m) [0..<j]"
  proof (cases "j = 0")
    case True
    then show ?thesis by simp
  next
    case False
    with lo L have "j * m < unat (ctrl_len dev2)" by simp
    from send_full_packets [OF m2 this] show ?thesis by simp
  qed
  have tr: "trace after
            = trace dev2 @ map (\<lambda>i. EpWritePacket 0 (ctrl_buf dev2 + i * m) m) [0..<k]"
    using last(1) tr_j a j km by simp
  have st: "state after = LAST_DATA_IN" using last(2) a w by simp
  have co: "completion after = completion dev2" using last(3) a by simp
  have nx: "qusb_control_in after = after\<lparr>state := STATUS_OUT\<rparr>"
    using st by (rule control_in_last_data_in)
  have "state (after\<lparr>state := STATUS_OUT\<rparr>) = STATUS_OUT" by simp
  from control_out_status_out [OF this, of std sz] co nx tr st show ?thesis
    by (simp split: option.splits)
qed

theorem in_transfer_exact_multiple_witness:
  "trace ((qusb_control_in ^^ (2 - 1))
          (qusb_control_setup std_reject (respond_dev 128) 8 (get_request 128)))
     = [EpReadPacket 0 IntoReq 8, UserCallback 0 (get_request 128),
        EpWritePacket 0 8192 64, EpWritePacket 0 8256 64]
   \<and> state ((qusb_control_in ^^ (2 - 1))
          (qusb_control_setup std_reject (respond_dev 128) 8 (get_request 128))) = LAST_DATA_IN
   \<and> completions (trace (qusb_control_out std_reject (qusb_control_in ((qusb_control_in ^^ (2 - 1))
          (qusb_control_setup std_reject (respond_dev 128) 8 (get_request 128)))) 0)) = [7]"
  using in_transfer_exact_multiple [OF _ _ _ _ prod.collapse [symmetric] _ _ refl,
      of "get_request 128" "respond_dev 128" 64 2 std_reject 0]
  by (simp add: fixture_defs engine_defs upt_rec)

section \<open>Properties of the UART driver\<close>

lemma poll_keeps_latch:
  "\<not> overrun_detected u head \<Longrightarrow>
   rx_overrun_occurred (check_rx_overrun u head) = rx_overrun_occurred u"
  by (simp add: check_rx_overrun_def overrun_detected_def Let_def)

lemma queries_cleared:
  "\<not> rx_overrun_occurred u \<Longrightarrow> overrun_free u cs \<Longrightarrow>
   queries u cs = replicate (length (filter is_query cs)) False"
proof (induction cs arbitrary: u)
  case Nil
  then show ?case by simp
next
  case (Cons c cs)
  show ?case
  proof (cases c)
    case (Poll head)
    with Cons.prems have "\<not> rx_overrun_occurred (check_rx_overrun u head)"
      and "overrun_free (check_rx_overrun u head) cs"
      by (simp_all add: poll_keeps_latch)
    then have "queries (check_rx_overrun u head) cs
               = replicate (length (filter is_query cs)) False"
      by (rule Cons.IH)
    with Poll show ?thesis by simp
  next
    case Query
    with Cons.prems have h: "has_rx_overrun_occurred u = (False, u)"
      by (simp add: has_rx_overrun_occurred_def)
    with Cons.prems Query have "overrun_free u cs" by simp
    with Cons.prems(1) have "queries u cs = replicate (length (filter is_query cs)) False"
      by (rule Cons.IH)
    with Query h show ?thesis by simp
  qed
qed

lemma queries_latched:
  "rx_overrun_occurred u \<Longrightarrow> overrun_free u cs \<Longrightarrow>
   queries u cs
   = (case length (filter is_query cs) of 0 \<Rightarrow> [] | Suc n \<Rightarrow> True # replicate n False)"
proof (induction cs arbitrary: u)
  case Nil
  then show ?case by simp
next
  case (Cons c cs)
  show ?case
  proof (cases c)
    case (Poll head)
    with Cons.prems have "rx_overrun_occurred (check_rx_overrun u head)"
      and "overrun_free (check_rx_overrun u head) cs"
      by (simp_all add: poll_keeps_latch)
    then have "queries (check_rx_overrun u head) cs
       = (case length (filter is_query cs) of 0 \<Rightarrow> [] | Suc n \<Rightarrow> True # replicate n False)"
      by (rule Cons.IH)
    with Poll show ?thesis by simp
  next
    case Query
    let ?u1 = "u\<lparr>rx_overrun_occurred := False\<rparr>"
    from Cons.prems have h: "has_rx_overrun_occurred u = (True, ?u1)"
      by (simp add: has_rx_overrun_occurred_def)
    with Cons.prems Query have "overrun_free ?u1 cs" by simp
    moreover have "\<not> rx_overrun_occurred ?u1" by simp
    ultimately have "queries ?u1 cs = replicate (length (filter is_query cs)) False"
      by (intro queries_cleared)
    with Query h show ?thesis by simp
  qed
qed

text \<open>
  Claim C10. After a poll that detects an overrun, as long as no later poll detects
  another one, the first call of \<open>has_rx_overrun_occurred\<close> returns true and every
  later call returns false.
\<close>
theorem overrun_reported_once:
  assumes "overrun_detected u head" and "overrun_free (check_rx_overrun u head) cs"
  shows "queries (check_rx_overrun u head) cs
         = (case length (filter is_query cs) of 0 \<Rightarrow> [] | Suc n \<Rightarrow> True # replicate n False)"
proof -
  from assms(1) have "rx_overrun_occurred (check_rx_overrun u head)"
    by (simp add: check_rx_overrun_def overrun_detected_def Let_def)
  then show ?thesis using assms(2) by (rule queries_latched)
qed

theorem overrun_reported_once_witness:
  "overrun_detected example_uart 10
   \<and> overrun_free (check_rx_overrun example_uart 10) [Query, Poll 20, Query, Query]
   \<and> queries (check_rx_overrun example_uart 10) [Query, Poll 20, Query, Query]
      = [True, False, False]
   \<and> queries (check_rx_overrun example_uart 10) [Query, Poll 20, Query, Poll 15, Query]
      = [True, False, True]"
  using overrun_reported_once [of example_uart 10 "[Query, Poll 20, Query, Query]"]
  by (simp add: uart_defs Let_def)

end
